theory Spec2Isabelle
  imports Main
begin

section \<open>The Go library functions store.go calls\<close>

text \<open>
  Go strings are byte sequences; they are modelled as \<open>string\<close> (a list of 8-bit
  characters). Go's \<open>int\<close> is taken to be 64 bits wide; it is modelled as \<open>int\<close>
  with the two's-complement wrap-around written out by \<open>int64\<close> wherever the source
  does arithmetic on values that a caller or a log file supplies. A \<open>byte\<close> is a
  \<open>nat\<close> below 256.
\<close>

type_synonym byte = nat

definition nl :: char where
  "nl = CHR 0x0A"

definition cr :: char where
  "cr = CHR 0x0D"

definition int64 :: "int \<Rightarrow> int" where
  "int64 x = (x + 2 ^ 63) mod 2 ^ 64 - 2 ^ 63"

text \<open>\<open>fmt.Sprintf("%d", n)\<close>: the decimal digits of a non-negative \<open>n\<close>, and the
  sign before them for a negative one.\<close>

function dec :: "int \<Rightarrow> string" where
  "dec n = (if n < 10 then [''0123456789'' ! nat n]
            else dec (n div 10) @ [''0123456789'' ! nat (n mod 10)])"
  by pat_completeness auto
termination
  by (relation "measure nat") auto

definition itoa :: "int \<Rightarrow> string" where
  "itoa i = (if i < 0 then CHR ''-'' # dec (- i) else dec i)"

text \<open>The first position in a list at which a test holds, if there is one.\<close>

fun indexWhere :: "('a \<Rightarrow> bool) \<Rightarrow> 'a list \<Rightarrow> nat option" where
  "indexWhere P [] = None"
| "indexWhere P (x # xs) =
     (if P x then Some 0
      else (case indexWhere P xs of None \<Rightarrow> None | Some i \<Rightarrow> Some (Suc i)))"

text \<open>The value of a decimal digit: its place among the ten digits.\<close>

definition digit_val :: "char \<Rightarrow> nat option" where
  "digit_val c = indexWhere (\<lambda>x. x = c) ''0123456789''"

text \<open>The digit loop of \<open>strconv.ParseUint(s, 10, 64)\<close>, without its overflow check:
  the value of a string of decimal digits, or nothing at the first other character.\<close>

fun parse_digits :: "int \<Rightarrow> string \<Rightarrow> int option" where
  "parse_digits acc [] = Some acc"
| "parse_digits acc (c # cs) =
     (case digit_val c of
        None \<Rightarrow> None
      | Some d \<Rightarrow> parse_digits (acc * 10 + int d) cs)"

text \<open>
  \<open>strconv.Atoi\<close>: the value and whether \<open>err == nil\<close>. A syntax error gives 0; a
  value outside the 64-bit range gives the nearest bound together with a range error.
\<close>

definition Atoi :: "string \<Rightarrow> int \<times> bool" where
  "Atoi s =
     (if s = [] then (0, False)
      else
        let neg = (hd s = CHR ''-'');
            ds = (if hd s = CHR ''-'' \<or> hd s = CHR ''+'' then tl s else s)
        in if ds = [] then (0, False)
           else (case parse_digits 0 ds of
                   None \<Rightarrow> (0, False)
                 | Some n \<Rightarrow>
                     if \<not> neg \<and> n \<ge> 2 ^ 63 then (2 ^ 63 - 1, False)
                     else if neg \<and> n > 2 ^ 63 then (- (2 ^ 63), False)
                     else (if neg then - n else n, True)))"

text \<open>\<open>strings.Split(s, sep)\<close> for a separator of one character: one part more than
  there are separators, so the empty string splits into one empty part.\<close>

fun Split :: "string \<Rightarrow> char \<Rightarrow> string list" where
  "Split [] sep = [[]]"
| "Split (c # s) sep =
     (if c = sep then [] # Split s sep
      else (case Split s sep of
              [] \<Rightarrow> [[c]]
            | p # ps \<Rightarrow> (c # p) # ps))"

text \<open>\<open>bytes.IndexByte(d, c)\<close>: the first position of \<open>c\<close>, \<open>None\<close> for -1.\<close>

definition IndexByte :: "string \<Rightarrow> char \<Rightarrow> nat option" where
  "IndexByte d c = indexWhere (\<lambda>x. x = c) d"

text \<open>\<open>encoding/hex\<close>: \<open>EncodeToString\<close> writes lower case; \<open>DecodeString\<close> reads
  both cases and fails on an odd length or on any other character.\<close>

definition hex_digit :: "nat \<Rightarrow> char" where
  "hex_digit d = ''0123456789abcdef'' ! d"

definition hex_val :: "char \<Rightarrow> nat option" where
  "hex_val c =
     (case IndexByte ''0123456789abcdef'' c of
        Some d \<Rightarrow> Some d
      | None \<Rightarrow> IndexByte ''0123456789ABCDEF'' c)"

fun hex_EncodeToString :: "byte list \<Rightarrow> string" where
  "hex_EncodeToString [] = []"
| "hex_EncodeToString (b # bs) =
     hex_digit (b div 16) # hex_digit (b mod 16) # hex_EncodeToString bs"

fun hex_DecodeString :: "string \<Rightarrow> byte list option" where
  "hex_DecodeString [] = Some []"
| "hex_DecodeString [c] = None"
| "hex_DecodeString (c1 # c2 # cs) =
     (case (hex_val c1, hex_val c2, hex_DecodeString cs) of
        (Some h, Some l, Some bs) \<Rightarrow> Some ((h * 16 + l) # bs)
      | _ \<Rightarrow> None)"

text \<open>\<open>encoding/base64\<close>, \<open>StdEncoding\<close>: the standard alphabet with \<open>=\<close> padding.
  \<open>DecodeString\<close> skips carriage returns and newlines, wants whole groups of four
  characters, accepts padding only at the end of the last group, and does not check
  the unused bits of a padded group.\<close>

definition b64_digit :: "nat \<Rightarrow> char" where
  "b64_digit d =
     ''ABCDEFGHIJKLMNOPQRSTUVWXYZabcdefghijklmnopqrstuvwxyz0123456789+/'' ! d"

definition b64_val :: "char \<Rightarrow> nat option" where
  "b64_val c =
     IndexByte ''ABCDEFGHIJKLMNOPQRSTUVWXYZabcdefghijklmnopqrstuvwxyz0123456789+/'' c"

fun base64_EncodeToString :: "byte list \<Rightarrow> string" where
  "base64_EncodeToString [] = []"
| "base64_EncodeToString [a] =
     [b64_digit (a div 4), b64_digit ((a mod 4) * 16), CHR ''='', CHR ''='']"
| "base64_EncodeToString [a, b] =
     [b64_digit (a div 4), b64_digit ((a mod 4) * 16 + b div 16),
      b64_digit ((b mod 16) * 4), CHR ''='']"
| "base64_EncodeToString (a # b # c # bs) =
     [b64_digit (a div 4), b64_digit ((a mod 4) * 16 + b div 16),
      b64_digit ((b mod 16) * 4 + c div 64), b64_digit (c mod 64)]
     @ base64_EncodeToString bs"

definition b64_quantum :: "char \<Rightarrow> char \<Rightarrow> char \<Rightarrow> char \<Rightarrow> byte list option" where
  "b64_quantum c1 c2 c3 c4 =
     (case (b64_val c1, b64_val c2, b64_val c3, b64_val c4) of
        (Some v1, Some v2, Some v3, Some v4) \<Rightarrow>
          Some [v1 * 4 + v2 div 16, (v2 mod 16) * 16 + v3 div 4, (v3 mod 4) * 64 + v4]
      | _ \<Rightarrow> None)"

definition b64_last :: "char \<Rightarrow> char \<Rightarrow> char \<Rightarrow> char \<Rightarrow> byte list option" where
  "b64_last c1 c2 c3 c4 =
     (if c3 = CHR ''='' \<and> c4 = CHR ''='' then
        (case (b64_val c1, b64_val c2) of
           (Some v1, Some v2) \<Rightarrow> Some [v1 * 4 + v2 div 16]
         | _ \<Rightarrow> None)
      else if c4 = CHR ''='' then
        (case (b64_val c1, b64_val c2, b64_val c3) of
           (Some v1, Some v2, Some v3) \<Rightarrow>
             Some [v1 * 4 + v2 div 16, (v2 mod 16) * 16 + v3 div 4]
         | _ \<Rightarrow> None)
      else b64_quantum c1 c2 c3 c4)"

fun b64_groups :: "string \<Rightarrow> byte list option" where
  "b64_groups [] = Some []"
| "b64_groups [c1, c2, c3, c4] = b64_last c1 c2 c3 c4"
| "b64_groups (c1 # c2 # c3 # c4 # cs) =
     (case (b64_quantum c1 c2 c3 c4, b64_groups cs) of
        (Some bs, Some rest) \<Rightarrow> Some (bs @ rest)
      | _ \<Rightarrow> None)"
| "b64_groups _ = None"

definition base64_DecodeString :: "string \<Rightarrow> byte list option" where
  "base64_DecodeString s = b64_groups (filter (\<lambda>c. c \<noteq> nl \<and> c \<noteq> cr) s)"

section \<open>Address encoding\<close>

text \<open>\<open>byte(num)\<close>: the low eight bits of an \<open>int\<close>.\<close>

definition byte_of_int :: "int \<Rightarrow> byte" where
  "byte_of_int i = nat (i mod 256)"

text \<open>\<open>ipAddrToInternal\<close>: four dot-separated parts are packed into four bytes and
  written as hex. \<open>Atoi\<close>'s error is dropped by the source, so a part that is not a
  number counts as whatever value \<open>Atoi\<close> returned with the error.\<close>

definition ipAddrToInternal :: "string \<Rightarrow> string" where
  "ipAddrToInternal ipAddr =
     (let parts = Split ipAddr (CHR ''.'')
      in if length parts = 4
         then hex_EncodeToString (map (\<lambda>p. byte_of_int (fst (Atoi p))) parts)
         else ipAddr)"

text \<open>\<open>fmt.Sprintf("%d.%d.%d.%d", d[0], d[1], d[2], d[3])\<close> on four bytes.\<close>

definition dotted :: "byte \<Rightarrow> byte \<Rightarrow> byte \<Rightarrow> byte \<Rightarrow> string" where
  "dotted a b c d =
     itoa (int a) @ ''.'' @ itoa (int b) @ ''.'' @ itoa (int c) @ ''.'' @ itoa (int d)"

definition ipAddrInternalToOriginal :: "string \<Rightarrow> string" where
  "ipAddrInternalToOriginal s =
     (case (if length s = 7 then hex_DecodeString (CHR ''0'' # s) else None) of
        Some d \<Rightarrow> dotted (d ! 0) (d ! 1) (d ! 2) (d ! 3)
      | None \<Rightarrow>
         (case (if length s = 8 then hex_DecodeString s else None) of
            Some d \<Rightarrow> dotted (d ! 0) (d ! 1) (d ! 2) (d ! 3)
          | None \<Rightarrow> s))"

text \<open>\<open>remSep\<close>: every \<open>|\<close> is removed.\<close>

definition remSep :: "string \<Rightarrow> string" where
  "remSep s = filter (\<lambda>c. c \<noteq> CHR ''|'') s"


section \<open>Memory: slices, arrays and pointers\<close>

text \<open>
  The store keeps pointers into the backing arrays of slices (\<open>posts []*Post\<close>,
  \<open>Post.Topic\<close>, the replayer's \<open>topicIdToTopic\<close>), and \<open>append\<close> moves a slice to
  a new array when its capacity is used up, so the memory is modelled explicitly:
  a backing array is a list of cells whose length is the array's capacity, an address
  is an index into the list of all arrays of that element type, a slice is
  (array, length, capacity), and a pointer to an element is (array, index).
  Both \<open>make([]T, 0)\<close> and the zero slice are \<open>Slice 0 0 0\<close>: with capacity 0 the
  array component is never read.
\<close>

datatype slice = Slice (arr: nat) (len: nat) (cap: nat)

type_synonym ptr = "nat \<times> nat"

text \<open>\<open>time.Time\<close>, as far as the store uses it: the seconds since the epoch and the
  nanoseconds within the second.\<close>

datatype time = Time (Unix: int) (Nanosecond: nat)

text \<open>The structs of store.go. Both have a field \<open>Id\<close> in the source; here they are
  \<open>PostId\<close> and \<open>TopicId\<close>.\<close>

record Post =
  PostId :: int
  CreatedOn :: time
  MessageSha1 :: "byte list"
  UserNameInternal :: string
  IpAddrInternal :: string
  IsDeleted :: bool
  Topic :: "ptr option"

record Topic =
  TopicId :: int
  Subject :: string
  Posts :: slice

definition zeroPost :: Post where
  "zeroPost = \<lparr>PostId = 0, CreatedOn = Time (- 62135596800) 0,
     MessageSha1 = replicate 20 0, UserNameInternal = [], IpAddrInternal = [],
     IsDeleted = False, Topic = None\<rparr>"

definition zeroTopic :: Topic where
  "zeroTopic = \<lparr>TopicId = 0, Subject = [], Posts = Slice 0 0 0\<rparr>"

text \<open>
  The cells a slice shows are \<open>cells\<close>. The built-in \<open>append(s, x)\<close> for one element:
  with room left it writes the cell after the slice's last one, in place; otherwise
  it allocates a new array, copies the slice's cells and writes \<open>x\<close> after them. The capacity of the new array is the Go
  runtime's choice (\<open>growslice\<close>); it is the parameter \<open>grow\<close>, from the old capacity,
  and is at least the length needed.
\<close>

definition cells :: "'a list list \<Rightarrow> slice \<Rightarrow> 'a list" where
  "cells arrays s = (if cap s = 0 then [] else take (len s) (arrays ! arr s))"

definition append_slice ::
  "(nat \<Rightarrow> nat) \<Rightarrow> 'a \<Rightarrow> 'a list list \<Rightarrow> slice \<Rightarrow> 'a \<Rightarrow> slice \<times> 'a list list" where
  "append_slice grow zero arrays s x =
     (if len s < cap s
      then (Slice (arr s) (Suc (len s)) (cap s),
            arrays[arr s := (arrays ! arr s)[len s := x]])
      else
        let c = max (Suc (len s)) (grow (cap s))
        in (Slice (length arrays) (Suc (len s)) c,
            arrays @ [cells arrays s @ x # replicate (c - Suc (len s)) zero]))"

text \<open>The capacities the gc runtime chooses for short slices of these structs:
  1 for the first element, then twice the old capacity.\<close>

definition doubling :: "nat \<Rightarrow> nat" where
  "doubling c = (if c = 0 then 1 else 2 * c)"

text \<open>\<open>&s[i]\<close> for an \<open>int\<close> index: a run-time panic outside \<open>0 \<le> i < len(s)\<close>.\<close>

datatype 'a outcome = Panics string | Returns 'a

definition index_ptr :: "slice \<Rightarrow> int \<Rightarrow> ptr outcome" where
  "index_ptr s i =
     (if i < 0 \<or> i \<ge> int (len s) then Panics ''index out of range''
      else Returns (arr s, nat i))"

section \<open>The store\<close>

text \<open>
  What is outside store.go: \<open>Sha1OfBytes\<close> (a helper of the repository that is not
  among the sources) and the runtime's capacity policy for \<open>append\<close>, one for each
  element type, are parameters.
\<close>

record env =
  Sha1OfBytes :: "string \<Rightarrow> byte list"
  growTopics :: "nat \<Rightarrow> nat"
  growPosts :: "nat \<Rightarrow> nat"

text \<open>Go's \<open>error\<close> values: \<open>errors.New(msg)\<close>, and the errors that
  \<open>dataFile.WriteString\<close>, \<open>WriteBytesToFile\<close> and the file operations of \<open>NewStore\<close>
  hand back.\<close>

datatype error = ErrorString string | WriteStringError | WriteBytesToFileError
  | ReadFileError | CreateError | OpenFileError

text \<open>What the code prints (\<open>fmt.Printf\<close>, \<open>logger.Errorf\<close>), one value per message.\<close>

datatype diagnostic =
    UnexpectedPostId string int int int string
  | TopicHasNoPosts nat
  | AppendStringFailed
  | WriteMessageFailed "string list"
  | ReadExistingDataFailed
  | CreateFailed
  | OpenFileFailed

text \<open>
  The state of the process and of its files: the two heaps of backing arrays, the
  fields of the \<open>Store\<close> struct (\<open>topics\<close> is a slice of \<open>Topic\<close> values, \<open>posts\<close> a list
  of pointers to posts; the array behind \<open>posts\<close> is never shared, so it is a plain
  list), the contents of the log file behind \<open>dataFile\<close>, the blob files (path and
  contents), and what has been printed.
\<close>

record state =
  postArrays :: "Post list list"
  topicArrays :: "Topic list list"
  dataDir :: string
  forumName :: string
  topics :: slice
  posts :: "ptr list"
  dataFile :: string
  blobs :: "(string list \<times> string) list"
  printed :: "diagnostic list"

definition derefTopic :: "state \<Rightarrow> ptr \<Rightarrow> Topic" where
  "derefTopic s p = topicArrays s ! fst p ! snd p"

definition derefPost :: "state \<Rightarrow> ptr \<Rightarrow> Post" where
  "derefPost s p = postArrays s ! fst p ! snd p"

definition storeTopic :: "state \<Rightarrow> ptr \<Rightarrow> Topic \<Rightarrow> state" where
  "storeTopic s p t =
     s\<lparr>topicArrays := (topicArrays s)[fst p := (topicArrays s ! fst p)[snd p := t]]\<rparr>"

definition storePost :: "state \<Rightarrow> ptr \<Rightarrow> Post \<Rightarrow> state" where
  "storePost s p x =
     s\<lparr>postArrays := (postArrays s)[fst p := (postArrays s ! fst p)[snd p := x]]\<rparr>"

text \<open>The cells a slice shows: \<open>store.topics\<close> and a topic's \<open>Posts\<close> as lists.\<close>

definition topicsList :: "state \<Rightarrow> Topic list" where
  "topicsList s = cells (topicArrays s) (topics s)"

definition postsList :: "state \<Rightarrow> Topic \<Rightarrow> Post list" where
  "postsList s t = cells (postArrays s) (Posts t)"

text \<open>\<open>topicByIdUnlocked\<close>: a pointer to the first topic with the id, or nil.\<close>

definition topicByIdUnlocked :: "state \<Rightarrow> int \<Rightarrow> ptr option" where
  "topicByIdUnlocked s tid =
     (case indexWhere (\<lambda>t. tid = TopicId t) (topicsList s) of
        None \<Rightarrow> None
      | Some idx \<Rightarrow> Some (arr (topics s), idx))"

definition findPost :: "state \<Rightarrow> int \<Rightarrow> int \<Rightarrow> (error + ptr) outcome" where
  "findPost s topicId postId =
     (case topicByIdUnlocked s topicId of
        None \<Rightarrow> Returns (Inl (ErrorString ''didn't find a topic with this id''))
      | Some topic \<Rightarrow>
          if postId > int (len (Posts (derefTopic s topic)))
          then Returns (Inl (ErrorString ''didn't find post with this id''))
          else (case index_ptr (Posts (derefTopic s topic)) (int64 (postId - 1)) of
                  Panics m \<Rightarrow> Panics m
                | Returns p \<Rightarrow> Returns (Inr p)))"

text \<open>
  \<open>dataFile.WriteString(str)\<close> either writes all of \<open>str\<close> or fails after some of its
  bytes; which one happens is an argument of every operation that writes.
\<close>

datatype write_result = Written | WriteFailed nat

definition appendString :: "state \<Rightarrow> string \<Rightarrow> write_result \<Rightarrow> error option \<times> state" where
  "appendString s str w =
     (case w of
        Written \<Rightarrow> (None, s\<lparr>dataFile := dataFile s @ str\<rparr>)
      | WriteFailed n \<Rightarrow>
          (Some WriteStringError,
           s\<lparr>dataFile := dataFile s @ take n str, printed := printed s @ [AppendStringFailed]\<rparr>))"

definition DeletePost ::
  "state \<Rightarrow> int \<Rightarrow> int \<Rightarrow> write_result \<Rightarrow> (error option \<times> state) outcome" where
  "DeletePost s topicId postId w =
     (case findPost s topicId postId of
        Panics m \<Rightarrow> Panics m
      | Returns (Inl err) \<Rightarrow> Returns (Some err, s)
      | Returns (Inr post) \<Rightarrow>
          if IsDeleted (derefPost s post)
          then Returns (Some (ErrorString ''post already deleted''), s)
          else (case appendString s (''D'' @ itoa topicId @ ''|'' @ itoa postId @ [nl]) w of
                  (Some err, s') \<Rightarrow> Returns (Some err, s')
                | (None, s') \<Rightarrow>
                    Returns (None, storePost s' post ((derefPost s' post)\<lparr>IsDeleted := True\<rparr>))))"

definition UndeletePost ::
  "state \<Rightarrow> int \<Rightarrow> int \<Rightarrow> write_result \<Rightarrow> (error option \<times> state) outcome" where
  "UndeletePost s topicId postId w =
     (case findPost s topicId postId of
        Panics m \<Rightarrow> Panics m
      | Returns (Inl err) \<Rightarrow> Returns (Some err, s)
      | Returns (Inr post) \<Rightarrow>
          if \<not> IsDeleted (derefPost s post)
          then Returns (Some (ErrorString ''post already not deleted''), s)
          else (case appendString s (''U'' @ itoa topicId @ ''|'' @ itoa postId @ [nl]) w of
                  (Some err, s') \<Rightarrow> Returns (Some err, s')
                | (None, s') \<Rightarrow>
                    Returns (None, storePost s' post ((derefPost s' post)\<lparr>IsDeleted := False\<rparr>))))"

text \<open>\<open>blockIp\<close> and \<open>unblockIp\<close>: the string is formatted as the source formats it,
  and the error of \<open>appendString\<close> is dropped. \<open>BlockIp\<close> and \<open>UnblockIp\<close> only take
  the lock around them.\<close>

definition blockIp :: "state \<Rightarrow> string \<Rightarrow> write_result \<Rightarrow> state" where
  "blockIp s ipAddr w = snd (appendString s (''U:'' @ ipAddrToInternal ipAddr @ ''|1'') w)"

definition unblockIp :: "state \<Rightarrow> string \<Rightarrow> write_result \<Rightarrow> state" where
  "unblockIp s ipAddr w = snd (appendString s (''U:'' @ ipAddrToInternal ipAddr @ ''|0'') w)"

definition BlockIp :: "state \<Rightarrow> string \<Rightarrow> write_result \<Rightarrow> state" where
  "BlockIp s ipAddr w = blockIp s ipAddr w"

definition UnblockIp :: "state \<Rightarrow> string \<Rightarrow> write_result \<Rightarrow> state" where
  "UnblockIp s ipAddr w = unblockIp s ipAddr w"


subsection \<open>Creating posts\<close>

text \<open>\<open>copy(p.MessageSha1[:], sha1)\<close> into a zeroed \<open>[20]byte\<close>.\<close>

definition copy20 :: "byte list \<Rightarrow> byte list" where
  "copy20 src = take 20 src @ replicate (20 - length src) 0"

text \<open>\<open>blobPath\<close> and \<open>MessageFilePath\<close>. A path is the list of the components that
  the source hands to \<open>filepath.Join\<close>.\<close>

definition blobPath :: "string \<Rightarrow> string \<Rightarrow> string list" where
  "blobPath dir sha1 = [dir, ''blobs'', take 2 sha1, take 2 (drop 2 sha1), sha1]"

definition MessageFilePath :: "state \<Rightarrow> byte list \<Rightarrow> string list" where
  "MessageFilePath s sha1 = blobPath (dataDir s) (hex_EncodeToString sha1)"

text \<open>
  Modelled from the spec: \<open>WriteBytesToFile\<close>, a helper of the repository that is not
  among the sources. Section 4.2: a message body is stored under the path derived
  from its digest, and writing the same bytes again is harmless. Whether the write
  succeeds is an argument; a failed write is taken to leave no file behind.
\<close>

fun writeFile :: "string list \<Rightarrow> string \<Rightarrow> (string list \<times> string) list
     \<Rightarrow> (string list \<times> string) list" where
  "writeFile path d [] = [(path, d)]"
| "writeFile path d ((path', d') # files) =
     (if path = path' then (path, d) # files else (path', d') # writeFile path d files)"

definition WriteBytesToFile ::
  "state \<Rightarrow> string \<Rightarrow> string list \<Rightarrow> bool \<Rightarrow> error option \<times> state" where
  "WriteBytesToFile s msg path ok =
     (if ok then (None, s\<lparr>blobs := writeFile path msg (blobs s)\<rparr>)
      else (Some WriteBytesToFileError, s))"

definition writeMessageAsSha1 ::
  "state \<Rightarrow> string \<Rightarrow> byte list \<Rightarrow> bool \<Rightarrow> error option \<times> state" where
  "writeMessageAsSha1 s msg sha1 ok =
     (case WriteBytesToFile s msg (MessageFilePath s sha1) ok of
        (Some err, s') \<Rightarrow>
          (Some err, s'\<lparr>printed := printed s' @ [WriteMessageFailed (MessageFilePath s sha1)]\<rparr>)
      | (None, s') \<Rightarrow> (None, s'))"

text \<open>What a post-creating call meets outside the program: the clock, and whether
  the blob write and the log write succeed.\<close>

record effects =
  Now :: time
  blobWrite :: bool
  logWrite :: write_result

text \<open>The two records \<open>addNewPost\<close> formats.\<close>

definition topicRecord :: "Topic \<Rightarrow> string" where
  "topicRecord t = ''T'' @ itoa (TopicId t) @ ''|'' @ Subject t @ [nl]"

definition postRecord :: "Topic \<Rightarrow> Post \<Rightarrow> string" where
  "postRecord t p =
     ''P'' @ itoa (TopicId t) @ ''|'' @ itoa (PostId p) @ ''|'' @ itoa (Unix (CreatedOn p))
       @ ''|'' @ butlast (base64_EncodeToString (MessageSha1 p))
       @ ''|'' @ IpAddrInternal p @ ''|'' @ UserNameInternal p @ [nl]"

text \<open>
  \<open>addNewPost\<close>. \<open>topic\<close> is a pointer: to a cell of \<open>store.topics\<close> when called from
  \<open>AddPostToTopic\<close>, to a \<open>Topic\<close> of its own when called from \<open>CreateNewPost\<close>. The
  post is appended to the topic behind the pointer; for a new topic that topic is
  then copied to the end of \<open>store.topics\<close>; last, a pointer to the post's cell in
  the topic's array goes to the end of \<open>store.posts\<close>.
\<close>

definition addNewPost ::
  "env \<Rightarrow> state \<Rightarrow> string \<Rightarrow> string \<Rightarrow> string \<Rightarrow> ptr \<Rightarrow> bool \<Rightarrow> effects
     \<Rightarrow> error option \<times> state" where
  "addNewPost E s msg user ipAddr topic newTopic fx =
     (let p = \<lparr>PostId = int (len (Posts (derefTopic s topic))) + 1,
                CreatedOn = Now fx,
                MessageSha1 = copy20 (Sha1OfBytes E msg),
                UserNameInternal = remSep user,
                IpAddrInternal = remSep (ipAddrToInternal ipAddr),
                IsDeleted = False,
                Topic = Some topic\<rparr>
      in case writeMessageAsSha1 s msg (MessageSha1 p) (blobWrite fx) of
           (Some err, s1) \<Rightarrow> (Some err, s1)
         | (None, s1) \<Rightarrow>
            (let topicStr = (if newTopic then topicRecord (derefTopic s1 topic) else []);
                 postStr = postRecord (derefTopic s1 topic) p
             in case appendString s1 (topicStr @ postStr) (logWrite fx) of
                  (Some err, s2) \<Rightarrow> (Some err, s2)
                | (None, s2) \<Rightarrow>
                   (let (ps, arrays) =
                          append_slice (growPosts E) zeroPost (postArrays s2)
                            (Posts (derefTopic s2 topic)) p;
                        s3 = storeTopic (s2\<lparr>postArrays := arrays\<rparr>) topic
                               ((derefTopic s2 topic)\<lparr>Posts := ps\<rparr>);
                        s4 = (if newTopic
                              then (let (ts, tarrays) =
                                          append_slice (growTopics E) zeroTopic (topicArrays s3)
                                            (topics s3) (derefTopic s3 topic)
                                    in s3\<lparr>topics := ts, topicArrays := tarrays\<rparr>)
                              else s3);
                        tp = Posts (derefTopic s4 topic)
                    in (None, s4\<lparr>posts := posts s4 @ [(arr tp, len tp - 1)]\<rparr>))))"

text \<open>\<open>CreateNewPost\<close>: the new \<open>Topic\<close> is an object of its own (an array of one cell)
  until \<open>addNewPost\<close> copies it into \<open>store.topics\<close>. It returns \<open>topic.Id\<close> and the
  error.\<close>

definition CreateNewPost ::
  "env \<Rightarrow> state \<Rightarrow> string \<Rightarrow> string \<Rightarrow> string \<Rightarrow> string \<Rightarrow> effects
     \<Rightarrow> int \<times> error option \<times> state" where
  "CreateNewPost E s subject msg user ipAddr fx =
     (let tid = (if len (topics s) > 0
                 then int64 (TopicId (topicsList s ! (len (topics s) - 1)) + 1)
                 else 1);
          topic = (length (topicArrays s), 0);
          s1 = s\<lparr>topicArrays := topicArrays s
                   @ [[\<lparr>TopicId = tid, Subject = remSep subject, Posts = Slice 0 0 0\<rparr>]]\<rparr>;
          (err, s2) = addNewPost E s1 msg user ipAddr topic True fx
      in (TopicId (derefTopic s2 topic), err, s2))"

definition AddPostToTopic ::
  "env \<Rightarrow> state \<Rightarrow> int \<Rightarrow> string \<Rightarrow> string \<Rightarrow> string \<Rightarrow> effects
     \<Rightarrow> error option \<times> state" where
  "AddPostToTopic E s topicId msg user ipAddr fx =
     (case topicByIdUnlocked s topicId of
        None \<Rightarrow> (Some (ErrorString ''invalid topicId''), s)
      | Some topic \<Rightarrow> addNewPost E s msg user ipAddr topic False fx)"

subsection \<open>Queries\<close>

definition TopicsCount :: "state \<Rightarrow> int" where
  "TopicsCount s = int (len (topics s))"

text \<open>
  The loop of \<open>GetTopics\<close>, by the number of rounds \<open>n\<close> still allows; \<open>i\<close> and the
  result so far are carried along. It ends when \<open>n\<close> is used up or the index
  \<open>len(store.topics) - 1 - i\<close> is negative, and the indexing panics when that index is
  not below the length (a negative \<open>from\<close>).
\<close>

fun GetTopics_loop :: "state \<Rightarrow> nat \<Rightarrow> int \<Rightarrow> ptr list \<Rightarrow> (ptr list \<times> int) outcome" where
  "GetTopics_loop s 0 i res = Returns (res, i)"
| "GetTopics_loop s (Suc n) i res =
     (let idx = int64 (int64 (int (len (topics s)) - 1) - i)
      in if idx < 0 then Returns (res, i)
         else (case index_ptr (topics s) idx of
                 Panics m \<Rightarrow> Panics m
               | Returns t \<Rightarrow> GetTopics_loop s n (int64 (i + 1)) (res @ [t])))"

text \<open>\<open>GetTopics\<close>. \<open>make\<close> panics on a negative capacity (and on one too large to
  allocate, which is left out here). The source never reads \<open>withDeleted\<close>.\<close>

definition GetTopics :: "state \<Rightarrow> int \<Rightarrow> int \<Rightarrow> bool \<Rightarrow> (ptr list \<times> int) outcome" where
  "GetTopics s nMax from withDeleted =
     (if nMax < 0 then Panics ''makeslice: cap out of range''
      else (case GetTopics_loop s (nat nMax) from [] of
              Panics m \<Rightarrow> Panics m
            | Returns (res, newFrom) \<Rightarrow>
                if int64 (int64 (int (len (topics s)) - 1) - newFrom) \<le> 0
                then Returns (res, 0)
                else Returns (res, newFrom)))"

definition GetRecentPosts :: "state \<Rightarrow> int \<Rightarrow> ptr list outcome" where
  "GetRecentPosts s max0 =
     (let n = (if max0 > int (length (posts s)) then int (length (posts s)) else max0)
      in if n < 0 then Panics ''makeslice: len out of range''
         else Returns (map (\<lambda>i. posts s ! (length (posts s) - 1 - i)) [0..<nat n]))"

text \<open>The loop shared by \<open>GetPostsByUserInternal\<close> and \<open>GetPostsByIpInternal\<close>, over
  \<open>store.posts\<close> from its last element down to its first: a matching post is appended
  to the result, and the loop stops once the result is longer than \<open>max\<close>.\<close>

fun scanPosts :: "state \<Rightarrow> (Post \<Rightarrow> bool) \<Rightarrow> int \<Rightarrow> ptr list \<Rightarrow> ptr list \<Rightarrow> ptr list" where
  "scanPosts s match max0 [] res = res"
| "scanPosts s match max0 (p # ps) res =
     (if match (derefPost s p)
      then (if int (length (res @ [p])) > max0 then res @ [p]
            else scanPosts s match max0 ps (res @ [p]))
      else scanPosts s match max0 ps res)"

definition GetPostsByUserInternal :: "state \<Rightarrow> string \<Rightarrow> int \<Rightarrow> ptr list" where
  "GetPostsByUserInternal s userNameInternal max0 =
     scanPosts s (\<lambda>p. UserNameInternal p = userNameInternal) max0 (rev (posts s)) []"

definition GetPostsByIpInternal :: "state \<Rightarrow> string \<Rightarrow> int \<Rightarrow> ptr list" where
  "GetPostsByIpInternal s ipAddrInternal max0 =
     scanPosts s (\<lambda>p. IpAddrInternal p = ipAddrInternal) max0 (rev (posts s)) []"


subsection \<open>Replaying the log\<close>

definition parseDelUndel :: "string \<Rightarrow> (int \<times> int) outcome" where
  "parseDelUndel d =
     (let parts = Split d (CHR ''|'')
      in if length parts \<noteq> 2 then Panics ''len(parts) != 2''
         else (case Atoi (parts ! 0) of
                 (topicId, ok1) \<Rightarrow>
                   if \<not> ok1 then Panics ''invalid topicId''
                   else (case Atoi (parts ! 1) of
                           (postId, ok2) \<Rightarrow>
                             if \<not> ok2 then Panics ''invalid postId''
                             else Returns (topicId, postId))))"

definition findPostToDelUndel ::
  "state \<Rightarrow> string \<Rightarrow> (int \<Rightarrow> ptr option) \<Rightarrow> ptr outcome" where
  "findPostToDelUndel s d topicIdToTopic =
     (case parseDelUndel d of
        Panics m \<Rightarrow> Panics m
      | Returns (topicId, postId) \<Rightarrow>
         (case topicIdToTopic topicId of
            None \<Rightarrow> Panics ''no topic with that id''
          | Some topic \<Rightarrow>
              if postId > int (len (Posts (derefTopic s topic)))
              then Panics ''invalid postId''
              else index_ptr (Posts (derefTopic s topic)) (int64 (postId - 1))))"

text \<open>\<open>parseTopic\<close> and \<open>parsePost\<close> get the whole line; its first character, the tag,
  has been read by the caller, so the line is not empty.\<close>

definition parseTopic :: "string \<Rightarrow> Topic outcome" where
  "parseTopic line =
     (let parts = Split (tl line) (CHR ''|'')
      in if length parts \<noteq> 2 then Panics ''len(parts) != 2''
         else (case Atoi (parts ! 0) of
                 (tid, ok) \<Rightarrow>
                   if \<not> ok then Panics ''idStr is not a number''
                   else Returns \<lparr>TopicId = tid, Subject = parts ! 1, Posts = Slice 0 0 0\<rparr>))"

text \<open>\<open>parsePost\<close> returns the post and what it printed. The post's id is its position
  in the topic the map gives for the record's topic id, whatever id the record holds;
  when the two differ the four \<open>Printf\<close> calls run, with the arguments they have in
  the source.\<close>

definition parsePost ::
  "state \<Rightarrow> string \<Rightarrow> (int \<Rightarrow> ptr option) \<Rightarrow> (Post \<times> diagnostic list) outcome" where
  "parsePost s line topicIdToTopic =
     (let parts = Split (tl line) (CHR ''|'')
      in if length parts \<noteq> 6 then Panics ''len(parts) != 6''
         else
          (case Atoi (parts ! 0) of (topicId, ok1) \<Rightarrow>
           if \<not> ok1 then Panics ''topicIdStr not a number''
           else
          (case Atoi (parts ! 1) of (pid, ok2) \<Rightarrow>
           if \<not> ok2 then Panics ''idStr not a number''
           else
          (case Atoi (parts ! 2) of (createdOnSeconds, ok3) \<Rightarrow>
           if \<not> ok3 then Panics ''createdOnSeconds not a number''
           else
          (case base64_DecodeString (parts ! 3 @ ''='') of
             None \<Rightarrow> Panics ''msgSha1b64 not valid base64''
           | Some msgSha1 \<Rightarrow>
              if length msgSha1 \<noteq> 20 then Panics ''len(msgSha1) != 20''
              else
               (case topicIdToTopic topicId of
                  None \<Rightarrow> Panics ''didn't find topic with a given topicId''
                | Some t \<Rightarrow>
                   (let realPostId = int (len (Posts (derefTopic s t))) + 1
                    in Returns
                         (\<lparr>PostId = realPostId,
                           CreatedOn = Time createdOnSeconds 0,
                           MessageSha1 = copy20 msgSha1,
                           UserNameInternal = parts ! 5,
                           IpAddrInternal = parts ! 4,
                           IsDeleted = False,
                           Topic = Some t\<rparr>,
                          (if pid \<noteq> realPostId
                           then [UnexpectedPostId line topicId pid realPostId
                                   (Subject (derefTopic s t))]
                           else [])))))))))"

text \<open>The local variables of \<open>parseTopics\<close>; \<open>recentPosts\<close> points to \<open>store.posts\<close>,
  which is in the state.\<close>

record locals =
  topics_var :: slice
  topicIdToTopic :: "int \<Rightarrow> ptr option"

text \<open>One round of the loop of \<open>parseTopics\<close>, after the line has been cut off.\<close>

definition parseLine :: "env \<Rightarrow> state \<Rightarrow> locals \<Rightarrow> string \<Rightarrow> (state \<times> locals) outcome" where
  "parseLine E s l line =
     (if line = [] then Panics ''index out of range''
      else if hd line = CHR ''T'' then
        (case parseTopic line of
           Panics m \<Rightarrow> Panics m
         | Returns t \<Rightarrow>
            (let (ts, tarrays) =
                   append_slice (growTopics E) zeroTopic (topicArrays s) (topics_var l) t
             in Returns
                  (s\<lparr>topicArrays := tarrays\<rparr>,
                   l\<lparr>topics_var := ts,
                     topicIdToTopic := (topicIdToTopic l)(TopicId t \<mapsto> (arr ts, len ts - 1))\<rparr>)))
      else if hd line = CHR ''P'' then
        (case parsePost s line (topicIdToTopic l) of
           Panics m \<Rightarrow> Panics m
         | Returns (post, out) \<Rightarrow>
            (case Topic post of
               None \<Rightarrow> Panics ''nil pointer dereference''
             | Some t \<Rightarrow>
                (let (ps, arrays) =
                       append_slice (growPosts E) zeroPost (postArrays s)
                         (Posts (derefTopic s t)) post;
                     s1 = storeTopic (s\<lparr>postArrays := arrays, printed := printed s @ out\<rparr>) t
                            ((derefTopic s t)\<lparr>Posts := ps\<rparr>)
                 in Returns (s1\<lparr>posts := posts s1 @ [(arr ps, len ps - 1)]\<rparr>, l))))
      else if hd line = CHR ''D'' then
        (case findPostToDelUndel s (tl line) (topicIdToTopic l) of
           Panics m \<Rightarrow> Panics m
         | Returns post \<Rightarrow>
             if IsDeleted (derefPost s post) then Panics ''post already deleted''
             else Returns (storePost s post ((derefPost s post)\<lparr>IsDeleted := True\<rparr>), l))
      else if hd line = CHR ''U'' then
        (case findPostToDelUndel s (tl line) (topicIdToTopic l) of
           Panics m \<Rightarrow> Panics m
         | Returns post \<Rightarrow>
             if \<not> IsDeleted (derefPost s post) then Panics ''post already undeleted''
             else Returns (storePost s post ((derefPost s post)\<lparr>IsDeleted := False\<rparr>), l))
      else if hd line = CHR ''B'' then Returns (s, l)
      else Panics ''Unexpected line type'')"

function parseTopics_loop ::
  "env \<Rightarrow> state \<Rightarrow> locals \<Rightarrow> string \<Rightarrow> (state \<times> locals) outcome" where
  "parseTopics_loop E s l d =
     (if d = [] then Returns (s, l)
      else (case IndexByte d nl of
              None \<Rightarrow> Panics ''idx shouldn't be -1''
            | Some idx \<Rightarrow>
               (case parseLine E s l (take idx d) of
                  Panics m \<Rightarrow> Panics m
                | Returns (s', l') \<Rightarrow> parseTopics_loop E s' l' (drop (idx + 1) d))))"
  by pat_completeness auto
termination
  by (relation "measure (\<lambda>(E, s, l, d). length d)") auto

definition parseTopics :: "env \<Rightarrow> state \<Rightarrow> string \<Rightarrow> (slice \<times> state) outcome" where
  "parseTopics E s d =
     (case parseTopics_loop E s \<lparr>topics_var = Slice 0 0 0, topicIdToTopic = Map.empty\<rparr> d of
        Panics m \<Rightarrow> Panics m
      | Returns (s', l) \<Rightarrow> Returns (topics_var l, s'))"

text \<open>\<open>verifyTopics\<close> prints a line for every topic without posts.\<close>

definition verifyTopics :: "state \<Rightarrow> state" where
  "verifyTopics s =
     s\<lparr>printed := printed s
          @ map TopicHasNoPosts
              (filter (\<lambda>i. len (Posts (topicsList s ! i)) = 0) [0..<len (topics s)])\<rparr>"

text \<open>
  \<open>NewStore\<close>. The arguments after the names are the files it finds (the contents of
  the log file if it exists, and the blob files) and whether \<open>ReadFileAll\<close>,
  \<open>os.Create\<close> and \<open>os.OpenFile\<close> succeed. The new process starts with no arrays
  allocated.
\<close>

record fileops =
  readOk :: bool
  createOk :: bool
  openOk :: bool

definition NewStore ::
  "env \<Rightarrow> string \<Rightarrow> string \<Rightarrow> string option \<Rightarrow> (string list \<times> string) list \<Rightarrow> fileops
     \<Rightarrow> (error + state) outcome" where
  "NewStore E dir name file blobFiles ops =
     (let store = \<lparr>postArrays = [], topicArrays = [], dataDir = dir, forumName = name,
                    topics = Slice 0 0 0, posts = [], dataFile = [], blobs = blobFiles,
                    printed = []\<rparr>;
          opened = (\<lambda>s. if openOk ops then Returns (Inr (verifyTopics s))
                         else Returns (Inl OpenFileError))
      in case file of
           Some data \<Rightarrow>
             if \<not> readOk ops then Returns (Inl ReadFileError)
             else (case parseTopics E store data of
                     Panics m \<Rightarrow> Panics m
                   | Returns (ts, s1) \<Rightarrow> opened (s1\<lparr>topics := ts, dataFile := data\<rparr>))
         | None \<Rightarrow>
             if \<not> createOk ops then Returns (Inl CreateError)
             else opened store)"

text \<open>Closing the store and opening it again: \<open>NewStore\<close> on the files the state holds,
  with every file operation succeeding.\<close>

definition reopen :: "env \<Rightarrow> state \<Rightarrow> (error + state) outcome" where
  "reopen E s =
     NewStore E (dataDir s) (forumName s) (Some (dataFile s)) (blobs s)
       \<lparr>readOk = True, createOk = True, openOk = True\<rparr>"


subsection \<open>Sequences of calls, and what a caller can observe\<close>

text \<open>The mutation calls of the store's interface, each with what it meets outside
  the program.\<close>

datatype call =
    CallCreateNewPost string string string string effects
  | CallAddPostToTopic int string string string effects
  | CallDeletePost int int write_result
  | CallUndeletePost int int write_result
  | CallBlockIp string write_result
  | CallUnblockIp string write_result

fun step :: "env \<Rightarrow> state \<Rightarrow> call \<Rightarrow> (error option \<times> state) outcome" where
  "step E s (CallCreateNewPost subject msg user ipAddr fx) =
     Returns (snd (CreateNewPost E s subject msg user ipAddr fx))"
| "step E s (CallAddPostToTopic topicId msg user ipAddr fx) =
     Returns (AddPostToTopic E s topicId msg user ipAddr fx)"
| "step E s (CallDeletePost topicId postId w) = DeletePost s topicId postId w"
| "step E s (CallUndeletePost topicId postId w) = UndeletePost s topicId postId w"
| "step E s (CallBlockIp ipAddr w) = Returns (None, BlockIp s ipAddr w)"
| "step E s (CallUnblockIp ipAddr w) = Returns (None, UnblockIp s ipAddr w)"

text \<open>A sequence of calls, one after the other: the errors they returned and the state
  they leave, unless one of them panics.\<close>

fun run :: "env \<Rightarrow> state \<Rightarrow> call list \<Rightarrow> (error option list \<times> state) outcome" where
  "run E s [] = Returns ([], s)"
| "run E s (c # cs) =
     (case step E s c of
        Panics m \<Rightarrow> Panics m
      | Returns (err, s') \<Rightarrow>
         (case run E s' cs of
            Panics m \<Rightarrow> Panics m
          | Returns (errs, s'') \<Rightarrow> Returns (err # errs, s'')))"

text \<open>The fields of a post other than its time and its back pointer, the topics with
  their posts in order, and the posts behind \<open>store.posts\<close> in order.\<close>

definition postView :: "Post \<Rightarrow> int \<times> byte list \<times> string \<times> string \<times> bool" where
  "postView p =
     (PostId p, MessageSha1 p, UserNameInternal p, IpAddrInternal p, IsDeleted p)"

definition topicViews ::
  "state \<Rightarrow> (int \<times> string \<times> (int \<times> byte list \<times> string \<times> string \<times> bool) list) list" where
  "topicViews s = map (\<lambda>t. (TopicId t, Subject t, map postView (postsList s t))) (topicsList s)"

definition recentViews :: "state \<Rightarrow> (int \<times> byte list \<times> string \<times> string \<times> bool) list" where
  "recentViews s = map (\<lambda>p. postView (derefPost s p)) (posts s)"

text \<open>The program's memory is as it was: the fields of the store and every array that
  existed are unchanged; further \<open>Topic\<close> objects may have been allocated.\<close>

definition sameMemory :: "state \<Rightarrow> state \<Rightarrow> bool" where
  "sameMemory s s' =
     (topics s' = topics s \<and> posts s' = posts s \<and> postArrays s' = postArrays s
      \<and> take (length (topicArrays s)) (topicArrays s') = topicArrays s)"

definition topicIds :: "state \<Rightarrow> int list" where
  "topicIds s = map TopicId (topicsList s)"

definition postIds :: "state \<Rightarrow> Topic \<Rightarrow> int list" where
  "postIds s t = map PostId (postsList s t)"

definition postIdsByTopic :: "state \<Rightarrow> (int \<times> int list) list" where
  "postIdsByTopic s = map (\<lambda>t. (TopicId t, postIds s t)) (topicsList s)"

text \<open>The same observation after closing and opening again.\<close>

definition reopened_postIdsByTopic :: "env \<Rightarrow> state \<Rightarrow> (error + (int \<times> int list) list) outcome" where
  "reopened_postIdsByTopic E s =
     (case reopen E s of
        Panics m \<Rightarrow> Panics m
      | Returns (Inl err) \<Rightarrow> Returns (Inl err)
      | Returns (Inr s') \<Rightarrow> Returns (Inr (postIdsByTopic s')))"

text \<open>The error kinds of the specification (section 7), for the errors the code
  returns.\<close>

datatype error_kind = MalformedRecord | UnknownTopicReference | InvalidPostIndex
  | AlreadyInTargetState | BlobWriteFailed | LogAppendFailed | LogOpenFailed

definition errorKind :: "error \<Rightarrow> error_kind option" where
  "errorKind e =
     (case e of
        ErrorString m \<Rightarrow>
          (if m = ''didn't find a topic with this id'' \<or> m = ''invalid topicId''
           then Some UnknownTopicReference
           else if m = ''didn't find post with this id'' then Some InvalidPostIndex
           else if m = ''post already deleted'' \<or> m = ''post already not deleted''
           then Some AlreadyInTargetState
           else None)
      | WriteStringError \<Rightarrow> Some LogAppendFailed
      | WriteBytesToFileError \<Rightarrow> Some BlobWriteFailed
      | ReadFileError \<Rightarrow> Some LogOpenFailed
      | CreateError \<Rightarrow> Some LogOpenFailed
      | OpenFileError \<Rightarrow> Some LogOpenFailed)"

subsection \<open>Concrete stores\<close>

text \<open>An environment for the examples: every message has the digest of twenty zero
  bytes, and \<open>append\<close> grows a full slice as the gc runtime does.\<close>

definition env0 :: env where
  "env0 = \<lparr>Sha1OfBytes = (\<lambda>msg. replicate 20 0),
            growTopics = doubling, growPosts = doubling\<rparr>"

definition allOk :: fileops where
  "allOk = \<lparr>readOk = True, createOk = True, openOk = True\<rparr>"

definition good :: effects where
  "good = \<lparr>Now = Time 1148874103 0, blobWrite = True, logWrite = Written\<rparr>"

text \<open>The store \<open>NewStore\<close> returns when there is no log file yet.\<close>

definition emptyStore :: state where
  "emptyStore =
     \<lparr>postArrays = [], topicArrays = [], dataDir = ''data'', forumName = ''forum'',
      topics = Slice 0 0 0, posts = [], dataFile = [], blobs = [], printed = []\<rparr>"

text \<open>The state a sequence of calls leaves (the state unchanged if one panics).\<close>

definition after :: "state \<Rightarrow> call list \<Rightarrow> state" where
  "after s cs = (case run env0 s cs of Panics m \<Rightarrow> s | Returns (errs, s') \<Rightarrow> s')"

definition errorsOf :: "state \<Rightarrow> call list \<Rightarrow> error option list outcome" where
  "errorsOf s cs = (case run env0 s cs of Panics m \<Rightarrow> Panics m | Returns (errs, s') \<Rightarrow> Returns errs)"

text \<open>Two topics, then a reply to the first.\<close>

definition twoTopicsAndReply :: "call list" where
  "twoTopicsAndReply =
     [CallCreateNewPost ''Hello'' ''hi there'' ''alice'' ''127.0.0.1'' good,
      CallCreateNewPost ''Second'' ''more'' ''bob'' ''127.0.0.1'' good,
      CallAddPostToTopic 1 ''a reply'' ''t:kjk'' ''127.0.0.1'' good]"

text \<open>One topic with a reply, then the first post deleted.\<close>

definition replyThenDelete :: "call list" where
  "replyThenDelete =
     [CallCreateNewPost ''Hello'' ''hi there'' ''alice'' ''127.0.0.1'' good,
      CallAddPostToTopic 1 ''a reply'' ''t:kjk'' ''127.0.0.1'' good,
      CallDeletePost 1 1 Written]"

text \<open>One topic with one post; three topics; two posts of the same user from the
  same address.\<close>

definition oneTopic :: "call list" where
  "oneTopic = [CallCreateNewPost ''Hello'' ''hi there'' ''alice'' ''127.0.0.1'' good]"

definition threeTopics :: "call list" where
  "threeTopics =
     [CallCreateNewPost ''one'' ''m1'' ''alice'' ''127.0.0.1'' good,
      CallCreateNewPost ''two'' ''m2'' ''alice'' ''127.0.0.1'' good,
      CallCreateNewPost ''three'' ''m3'' ''alice'' ''127.0.0.1'' good]"

definition twoPostsOfAlice :: "call list" where
  "twoPostsOfAlice =
     [CallCreateNewPost ''Hello'' ''hi there'' ''alice'' ''127.0.0.1'' good,
      CallAddPostToTopic 1 ''again'' ''alice'' ''127.0.0.1'' good]"


text \<open>A log whose topic record holds the id 5 and whose post record holds the post
  id 7, the store \<open>NewStore\<close> returns for a log (the empty store if it returns none),
  and a \<open>CreateNewPost\<close> whose write fails after nine bytes followed by one that
  succeeds.\<close>

definition corruptLog :: string where
  "corruptLog =
     ''T5|Hello\<newline>P5|7|1148874103|AAAAAAAAAAAAAAAAAAAAAAAAAAA|7f000001|alice\<newline>''"

definition opened :: "string \<Rightarrow> state" where
  "opened d =
     (case NewStore env0 ''data'' ''forum'' (Some d) [] allOk of
        Returns (Inr s) \<Rightarrow> s
      | _ \<Rightarrow> emptyStore)"

definition failedThenCreated :: "call list" where
  "failedThenCreated =
     [CallCreateNewPost ''Hello'' ''hi there'' ''alice'' ''127.0.0.1''
        (good\<lparr>logWrite := WriteFailed 9\<rparr>),
      CallCreateNewPost ''Hello'' ''hi there'' ''alice'' ''127.0.0.1'' good]"

section \<open>Well-formed memory\<close>

text \<open>
  A slice is good for a list of arrays when its length is at most its capacity and,
  unless the capacity is 0, its array exists and is as long as the capacity. A slice
  of posts is good when, besides, the ids of its cells are 1, 2, ... in order. The
  memory is well formed when the posts of every topic in every topic array are good
  and \<open>store.topics\<close> is good. During the replay the local slice of topics must be good
  and every pointer in the map must point to a cell of a topic array.
\<close>

definition goodSlice :: "'a list list \<Rightarrow> slice \<Rightarrow> bool" where
  "goodSlice arrays s =
     (len s \<le> cap s \<and> (cap s = 0 \<or> (arr s < length arrays \<and> length (arrays ! arr s) = cap s)))"

definition validPtr :: "'a list list \<Rightarrow> ptr \<Rightarrow> bool" where
  "validPtr arrays p = (fst p < length arrays \<and> snd p < length (arrays ! fst p))"

definition goodPosts :: "Post list list \<Rightarrow> slice \<Rightarrow> bool" where
  "goodPosts arrays s =
     (goodSlice arrays s \<and> map PostId (cells arrays s) = [1..int (len s)])"

definition wfHeap :: "Post list list \<Rightarrow> Topic list list \<Rightarrow> bool" where
  "wfHeap parrays tarrays = list_all (list_all (\<lambda>t. goodPosts parrays (Posts t))) tarrays"

definition wf :: "state \<Rightarrow> bool" where
  "wf s = (wfHeap (postArrays s) (topicArrays s) \<and> goodSlice (topicArrays s) (topics s))"

definition replayInv :: "state \<Rightarrow> locals \<Rightarrow> bool" where
  "replayInv s l =
     (wfHeap (postArrays s) (topicArrays s) \<and> goodSlice (topicArrays s) (topics_var l)
      \<and> (\<forall>k p. topicIdToTopic l k = Some p \<longrightarrow> validPtr (topicArrays s) p))"

section \<open>Basic facts\<close>

declare dec.simps [simp del]

lemma int64_id: "- (2 ^ 63) \<le> x \<Longrightarrow> x < 2 ^ 63 \<Longrightarrow> int64 x = x"
  by (simp add: int64_def)

lemma int64_succ: "int64 (int64 a + 1) = int64 (a + 1)"
proof -
  define h :: int where "h = 2 ^ 63"
  define m :: int where "m = 2 ^ 64"
  have e: "int64 x = (x + h) mod m - h" for x by (simp add: int64_def h_def m_def)
  have "int64 a + 1 + h = (a + h) mod m + 1" by (simp add: e)
  then have "(int64 a + 1 + h) mod m = ((a + h) mod m + 1) mod m" by (simp only:)
  also have "\<dots> = (a + h + 1) mod m" by (rule mod_add_left_eq)
  also have "a + h + 1 = a + 1 + h" by simp
  finally show ?thesis by (simp only: e)
qed

lemma CreateNewPost_addNewPost:
  "CreateNewPost E s subject msg user ipAddr fx =
     (let t = \<lparr>TopicId = (if len (topics s) > 0
                            then int64 (TopicId (topicsList s ! (len (topics s) - 1)) + 1)
                            else 1),
                Subject = remSep subject, Posts = Slice 0 0 0\<rparr>;
          r = addNewPost E (s\<lparr>topicArrays := topicArrays s @ [[t]]\<rparr>) msg user ipAddr
                (length (topicArrays s), 0) True fx
      in (TopicId (derefTopic (snd r) (length (topicArrays s), 0)), fst r, snd r))"
  by (simp only: CreateNewPost_def Let_def split_beta)

section \<open>Decimal and hexadecimal digits\<close>

lemma indexWhere_nth:
  "distinct xs \<Longrightarrow> n < length xs \<Longrightarrow> indexWhere (\<lambda>x. x = xs ! n) xs = Some n"
proof (induction xs arbitrary: n)
  case Nil
  then show ?case by simp
next
  case (Cons a xs)
  show ?case
  proof (cases n)
    case 0
    then show ?thesis by simp
  next
    case (Suc m)
    with Cons.prems have "xs ! m \<in> set xs" "a \<notin> set xs" by simp_all
    then have "a \<noteq> xs ! m" by blast
    with Suc Cons show ?thesis by simp
  qed
qed

lemma digit_val_digit: "n < 10 \<Longrightarrow> digit_val (''0123456789'' ! n) = Some n"
  unfolding digit_val_def by (rule indexWhere_nth) simp_all

lemma digit_char_plain:
  assumes "n < 10"
  shows "''0123456789'' ! n \<noteq> CHR ''.'' \<and> ''0123456789'' ! n \<noteq> CHR ''-''
     \<and> ''0123456789'' ! n \<noteq> CHR ''+'' \<and> ''0123456789'' ! n \<noteq> CHR ''|''
     \<and> ''0123456789'' ! n \<noteq> nl"
proof -
  from assms have "''0123456789'' ! n \<in> set ''0123456789''"
    by (intro nth_mem) simp
  then show ?thesis by (auto simp: nl_def)
qed

lemma hex_val_digit: "n < 16 \<Longrightarrow> hex_val (hex_digit n) = Some n"
proof -
  assume "n < 16"
  then have "indexWhere (\<lambda>x. x = ''0123456789abcdef'' ! n) ''0123456789abcdef'' = Some n"
    by (intro indexWhere_nth) simp_all
  then show ?thesis by (simp add: hex_val_def hex_digit_def IndexByte_def)
qed

lemma parse_digits_append:
  "parse_digits acc (xs @ ys) =
     (case parse_digits acc xs of None \<Rightarrow> None | Some a \<Rightarrow> parse_digits a ys)"
  by (induction xs arbitrary: acc) (auto split: option.splits)

lemma parse_digits_dec: "0 \<le> n \<Longrightarrow> parse_digits 0 (dec n) = Some n"
proof (induction n rule: dec.induct)
  case (1 n)
  show ?case
  proof (cases "n < 10")
    case True
    with 1(2) have "nat n < 10" by simp
    from digit_val_digit [OF this] True 1(2) show ?thesis
      by (simp add: dec.simps [of n])
  next
    case False
    have "nat (n mod 10) < 10" by simp
    from digit_val_digit [OF this]
    have d: "digit_val (''0123456789'' ! nat (n mod 10)) = Some (nat (n mod 10))" .
    have "0 \<le> n div 10" using 1(2) by simp
    with 1(1) False have "parse_digits 0 (dec (n div 10)) = Some (n div 10)" by simp
    with False d show ?thesis
      by (simp add: dec.simps [of n] parse_digits_append)
  qed
qed

lemma dec_nonempty: "dec n \<noteq> []"
  by (subst dec.simps) simp

lemma dec_plain:
  "0 \<le> n \<Longrightarrow> c \<in> set (dec n) \<Longrightarrow>
     c \<noteq> CHR ''.'' \<and> c \<noteq> CHR ''-'' \<and> c \<noteq> CHR ''+'' \<and> c \<noteq> CHR ''|'' \<and> c \<noteq> nl"
proof (induction n rule: dec.induct)
  case (1 n)
  show ?case
  proof (cases "n < 10")
    case True
    with 1(2) have "nat n < 10" by simp
    from digit_char_plain [OF this] True 1(3) show ?thesis
      by (simp add: dec.simps [of n])
  next
    case False
    have "nat (n mod 10) < 10" by simp
    note p = digit_char_plain [OF this]
    have "0 \<le> n div 10" using 1(2) by simp
    with 1 False p show ?thesis
      by (auto simp add: dec.simps [of n])
  qed
qed

lemma Atoi_dec: "0 \<le> n \<Longrightarrow> n < 2 ^ 63 \<Longrightarrow> Atoi (dec n) = (n, True)"
proof -
  assume n: "0 \<le> n" "n < 2 ^ 63"
  have "hd (dec n) \<in> set (dec n)" using dec_nonempty by simp
  from dec_plain [OF n(1) this] n show ?thesis
    by (simp add: Atoi_def dec_nonempty parse_digits_dec)
qed

section \<open>Splitting, hex\<close>

lemma Split_plain: "sep \<notin> set p \<Longrightarrow> Split p sep = [p]"
  by (induction p) auto

lemma Split_at_sep: "sep \<notin> set p \<Longrightarrow> Split (p @ sep # rest) sep = p # Split rest sep"
  by (induction p) auto

lemma hex_round:
  "list_all (\<lambda>b. b < 256) bs \<Longrightarrow> hex_DecodeString (hex_EncodeToString bs) = Some bs"
proof (induction bs)
  case Nil
  then show ?case by simp
next
  case (Cons b bs)
  then have "b < 256" by simp
  then have "b div 16 < 16" "b mod 16 < 16" by auto
  then show ?case using Cons by (simp add: hex_val_digit)
qed

lemma length_hex_Encode: "length (hex_EncodeToString bs) = 2 * length bs"
  by (induction bs) auto

lemma hex_Decode_all:
  "list_all (\<lambda>c. hex_val c \<noteq> None) s \<Longrightarrow> even (length s) \<Longrightarrow> hex_DecodeString s \<noteq> None"
  by (induction s rule: hex_DecodeString.induct) auto

section \<open>Address encoding\<close>

lemma Atoi_itoa_byte: "a < 256 \<Longrightarrow> byte_of_int (fst (Atoi (itoa (int a)))) = a"
proof -
  assume a: "a < 256"
  then have "int a < 2 ^ 63" by simp
  then have "Atoi (dec (int a)) = (int a, True)" by (intro Atoi_dec) simp_all
  then show ?thesis using a by (simp add: itoa_def byte_of_int_def nat_mod_distrib)
qed

lemma Split_dotted:
  "Split (dotted a b c d) (CHR ''.'') = [itoa (int a), itoa (int b), itoa (int c), itoa (int d)]"
proof -
  have p: "CHR ''.'' \<notin> set (dec (int n))" for n
    using dec_plain [of "int n" "CHR ''.''"] by auto
  show ?thesis
    by (simp add: dotted_def itoa_def Split_at_sep [OF p] Split_plain [OF p])
qed

lemma encode_dotted:
  assumes "a < 256" "b < 256" "c < 256" "d < 256"
  shows "ipAddrToInternal (dotted a b c d) = hex_EncodeToString [a, b, c, d]"
  using assms
  by (simp add: ipAddrToInternal_def Split_dotted Atoi_itoa_byte del: hex_EncodeToString.simps)

lemma decode_hex4:
  assumes "a < 256" "b < 256" "c < 256" "d < 256"
  shows "ipAddrInternalToOriginal (hex_EncodeToString [a, b, c, d]) = dotted a b c d"
proof -
  have "hex_DecodeString (hex_EncodeToString [a, b, c, d]) = Some [a, b, c, d]"
    using assms by (intro hex_round) simp
  moreover have "length (hex_EncodeToString [a, b, c, d]) = 8"
    by (simp add: length_hex_Encode)
  ultimately show ?thesis
    by (simp add: ipAddrInternalToOriginal_def del: hex_EncodeToString.simps)
qed

lemma decode_legacy:
  assumes "length s = 7" "hex_DecodeString (CHR ''0'' # s) \<noteq> None"
  shows "ipAddrInternalToOriginal s = ipAddrInternalToOriginal (CHR ''0'' # s)"
  using assms by (auto simp add: ipAddrInternalToOriginal_def split: option.splits)

text \<open>
  C9. Encoding "1.2.3.4" and decoding the result gives "1.2.3.4" back; the same holds
  for every address written as four decimal numbers from 0 to 255 with dots between
  them; a string of seven hex digits decodes to what the same string with a 0 put in
  front decodes to; and a string that does not split into four parts at its dots is
  left as it is by the encoding.
\<close>

theorem ip_roundtrip:
  "ipAddrInternalToOriginal (ipAddrToInternal ''1.2.3.4'') = ''1.2.3.4''
   \<and> (\<forall>a b c d. a < 256 \<and> b < 256 \<and> c < 256 \<and> d < 256 \<longrightarrow>
         ipAddrInternalToOriginal (ipAddrToInternal (dotted a b c d)) = dotted a b c d)
   \<and> (\<forall>s. length s = 7 \<and> list_all (\<lambda>c. hex_val c \<noteq> None) s \<longrightarrow>
         ipAddrInternalToOriginal s = ipAddrInternalToOriginal (CHR ''0'' # s))
   \<and> (\<forall>s. length (Split s (CHR ''.'')) \<noteq> 4 \<longrightarrow> ipAddrToInternal s = s)"
proof (intro conjI allI impI)
  have "''1.2.3.4'' = dotted 1 2 3 4"
    by (simp add: dotted_def itoa_def dec.simps)
  then show "ipAddrInternalToOriginal (ipAddrToInternal ''1.2.3.4'') = ''1.2.3.4''"
    by (simp add: encode_dotted decode_hex4 del: hex_EncodeToString.simps)
next
  fix a b c d :: nat
  assume "a < 256 \<and> b < 256 \<and> c < 256 \<and> d < 256"
  then show "ipAddrInternalToOriginal (ipAddrToInternal (dotted a b c d)) = dotted a b c d"
    by (simp add: encode_dotted decode_hex4 del: hex_EncodeToString.simps)
next
  fix s
  assume h: "length s = 7 \<and> list_all (\<lambda>c. hex_val c \<noteq> None) s"
  then have "list_all (\<lambda>c. hex_val c \<noteq> None) (CHR ''0'' # s)" "even (length (CHR ''0'' # s))"
    by (simp_all add: hex_val_def IndexByte_def)
  then have "hex_DecodeString (CHR ''0'' # s) \<noteq> None" by (rule hex_Decode_all)
  with h show "ipAddrInternalToOriginal s = ipAddrInternalToOriginal (CHR ''0'' # s)"
    by (simp add: decode_legacy)
next
  fix s
  assume "length (Split s (CHR ''.'')) \<noteq> 4"
  then show "ipAddrToInternal s = s" by (simp add: ipAddrToInternal_def)
qed

theorem ip_roundtrip_witness:
  "ipAddrInternalToOriginal (ipAddrToInternal (dotted 127 0 0 1)) = dotted 127 0 0 1
   \<and> dotted 127 0 0 1 = ''127.0.0.1''
   \<and> ipAddrInternalToOriginal ''1020304'' = ipAddrInternalToOriginal ''01020304''
   \<and> ipAddrInternalToOriginal ''01020304'' = ''1.2.3.4''
   \<and> ipAddrToInternal ''::1'' = ''::1''"
proof -
  have a: "ipAddrInternalToOriginal (ipAddrToInternal (dotted 127 0 0 1)) = dotted 127 0 0 1"
    using ip_roundtrip by simp
  have b: "dotted 127 0 0 1 = ''127.0.0.1''"
    by (simp add: dotted_def itoa_def dec.simps)
  have "length ''1020304'' = 7 \<and> list_all (\<lambda>c. hex_val c \<noteq> None) ''1020304''"
    by (simp add: hex_val_def IndexByte_def)
  then have c: "ipAddrInternalToOriginal ''1020304'' = ipAddrInternalToOriginal ''01020304''"
    using ip_roundtrip by blast
  have d: "ipAddrInternalToOriginal ''01020304'' = ''1.2.3.4''"
    by (simp add: ipAddrInternalToOriginal_def hex_val_def IndexByte_def dotted_def itoa_def
        dec.simps)
  have "length (Split ''::1'' (CHR ''.'')) \<noteq> 4" by simp
  then have e: "ipAddrToInternal ''::1'' = ''::1''"
    using ip_roundtrip by blast
  from a b c d e show ?thesis by simp
qed

section \<open>Deleting and undeleting\<close>

lemma findPost_existing:
  assumes "topicByIdUnlocked s topicId = Some t"
      and "1 \<le> postId" "postId \<le> int (len (Posts (derefTopic s t)))" "postId < 2 ^ 63"
  shows "findPost s topicId postId
           = Returns (Inr (arr (Posts (derefTopic s t)), nat (postId - 1)))"
proof -
  have "int64 (postId - 1) = postId - 1"
    using assms(2,4) by (intro int64_id) simp_all
  with assms show ?thesis
    by (simp add: findPost_def index_ptr_def)
qed

text \<open>
  C4. For a post that exists (its topic is found and its id is between 1 and the
  number of posts of the topic): DeletePost on it when it is already deleted returns
  the error "post already deleted", UndeletePost on it when it is not deleted returns
  "post already not deleted"; both errors are of the kind AlreadyInTargetState, and
  in both cases the state returned is the state given, log file included.
\<close>

theorem toggle_already_in_target_state:
  assumes "topicByIdUnlocked s topicId = Some t"
      and "1 \<le> postId" "postId \<le> int (len (Posts (derefTopic s t)))" "postId < 2 ^ 63"
      and "p = (arr (Posts (derefTopic s t)), nat (postId - 1))"
  shows "(IsDeleted (derefPost s p) \<longrightarrow>
            DeletePost s topicId postId w
              = Returns (Some (ErrorString ''post already deleted''), s))
       \<and> (\<not> IsDeleted (derefPost s p) \<longrightarrow>
            UndeletePost s topicId postId w
              = Returns (Some (ErrorString ''post already not deleted''), s))
       \<and> errorKind (ErrorString ''post already deleted'') = Some AlreadyInTargetState
       \<and> errorKind (ErrorString ''post already not deleted'') = Some AlreadyInTargetState"
  using findPost_existing [OF assms(1-4)] assms(5)
  by (simp add: DeletePost_def UndeletePost_def errorKind_def)

theorem toggle_already_in_target_state_witness:
  "DeletePost (after emptyStore replyThenDelete) 1 1 Written
     = Returns (Some (ErrorString ''post already deleted''), after emptyStore replyThenDelete)
   \<and> UndeletePost (after emptyStore replyThenDelete) 1 2 Written
     = Returns (Some (ErrorString ''post already not deleted''), after emptyStore replyThenDelete)
   \<and> dataFile (after emptyStore replyThenDelete)
     = ''T1|Hello\<newline>P1|1|1148874103|AAAAAAAAAAAAAAAAAAAAAAAAAAA|7f000001|alice\<newline>P1|2|1148874103|AAAAAAAAAAAAAAAAAAAAAAAAAAA|7f000001|t:kjk\<newline>D1|1\<newline>''"
proof -
  let ?s = "after emptyStore replyThenDelete"
  have t: "topicByIdUnlocked ?s 1 = Some (1, 0)" by code_simp
  have l: "(1::int) \<le> int (len (Posts (derefTopic ?s (1, 0))))"
          "(2::int) \<le> int (len (Posts (derefTopic ?s (1, 0))))" by code_simp+
  have p1: "(1, 0) = (arr (Posts (derefTopic ?s (1, 0))), nat (1 - 1))" by code_simp
  have p2: "(1, 1) = (arr (Posts (derefTopic ?s (1, 0))), nat (2 - 1))" by code_simp
  have d1: "IsDeleted (derefPost ?s (1, 0))" by code_simp
  have d2: "\<not> IsDeleted (derefPost ?s (1, 1))" by code_simp
  have a: "DeletePost ?s 1 1 Written = Returns (Some (ErrorString ''post already deleted''), ?s)"
    using toggle_already_in_target_state [OF t _ l(1) _ p1, of Written] d1 by simp
  have b: "UndeletePost ?s 1 2 Written
             = Returns (Some (ErrorString ''post already not deleted''), ?s)"
    using toggle_already_in_target_state [OF t _ l(2) _ p2, of Written] d2 by simp
  have c: "dataFile ?s
     = ''T1|Hello\<newline>P1|1|1148874103|AAAAAAAAAAAAAAAAAAAAAAAAAAA|7f000001|alice\<newline>P1|2|1148874103|AAAAAAAAAAAAAAAAAAAAAAAAAAA|7f000001|t:kjk\<newline>D1|1\<newline>''"
    by code_simp
  from a b c show ?thesis by simp
qed

section \<open>The order of the steps of a post-creating call\<close>

lemma addNewPost_blob_fails:
  assumes "\<not> blobWrite fx"
  shows "addNewPost E s msg user ipAddr topic newTopic fx
           = (Some WriteBytesToFileError,
              s\<lparr>printed := printed s
                   @ [WriteMessageFailed (MessageFilePath s (copy20 (Sha1OfBytes E msg)))]\<rparr>)"
  using assms
  by (simp add: addNewPost_def writeMessageAsSha1_def WriteBytesToFile_def Let_def)

lemma addNewPost_log_fails:
  assumes "blobWrite fx" "logWrite fx = WriteFailed n"
  shows "fst (addNewPost E s msg user ipAddr topic newTopic fx) = Some WriteStringError
       \<and> sameMemory s (snd (addNewPost E s msg user ipAddr topic newTopic fx))
       \<and> blobs (snd (addNewPost E s msg user ipAddr topic newTopic fx))
           = writeFile (MessageFilePath s (copy20 (Sha1OfBytes E msg))) msg (blobs s)"
  using assms
  by (simp add: addNewPost_def writeMessageAsSha1_def WriteBytesToFile_def Let_def
      appendString_def sameMemory_def)

lemma addNewPost_succeeds:
  assumes "blobWrite fx" "logWrite fx = Written"
  shows "fst (addNewPost E s msg user ipAddr topic newTopic fx) = None
       \<and> blobs (snd (addNewPost E s msg user ipAddr topic newTopic fx))
           = writeFile (MessageFilePath s (copy20 (Sha1OfBytes E msg))) msg (blobs s)
       \<and> length (dataFile (snd (addNewPost E s msg user ipAddr topic newTopic fx)))
           > length (dataFile s)
       \<and> take (length (dataFile s)) (dataFile (snd (addNewPost E s msg user ipAddr topic newTopic fx)))
           = dataFile s
       \<and> length (posts (snd (addNewPost E s msg user ipAddr topic newTopic fx)))
           = Suc (length (posts s))"
  using assms
  by (simp add: addNewPost_def writeMessageAsSha1_def WriteBytesToFile_def Let_def
      appendString_def storeTopic_def postRecord_def split: prod.splits)

lemma sameMemory_alloc:
  assumes "sameMemory (s\<lparr>topicArrays := topicArrays s @ [a]\<rparr>) s'"
  shows "sameMemory s s'"
proof -
  from assms have t: "take (Suc (length (topicArrays s))) (topicArrays s') = topicArrays s @ [a]"
    by (simp add: sameMemory_def)
  have "take (length (topicArrays s)) (topicArrays s')
          = take (length (topicArrays s)) (take (Suc (length (topicArrays s))) (topicArrays s'))"
    by simp
  also have "\<dots> = topicArrays s" by (simp only: t) simp
  finally show ?thesis using assms by (simp add: sameMemory_def)
qed

lemma sameMemory_printed: "sameMemory s (s\<lparr>printed := x\<rparr>)"
  by (simp add: sameMemory_def)


lemma CreateNewPost_blob_fails:
  assumes "\<not> blobWrite fx"
  shows "case CreateNewPost E s subject msg user ipAddr fx of
           (tid, err, s') \<Rightarrow>
             err = Some WriteBytesToFileError \<and> dataFile s' = dataFile s
             \<and> blobs s' = blobs s \<and> sameMemory s s'"
proof -
  define t where "t = \<lparr>TopicId = (if len (topics s) > 0
                            then int64 (TopicId (topicsList s ! (len (topics s) - 1)) + 1)
                            else 1),
                Subject = remSep subject, Posts = Slice 0 0 0\<rparr>"
  define r where "r = addNewPost E (s\<lparr>topicArrays := topicArrays s @ [[t]]\<rparr>) msg user ipAddr
                (length (topicArrays s), 0) True fx"
  have c: "CreateNewPost E s subject msg user ipAddr fx
             = (TopicId (derefTopic (snd r) (length (topicArrays s), 0)), fst r, snd r)"
    unfolding r_def t_def by (simp only: CreateNewPost_addNewPost Let_def)
  have "fst r = Some WriteBytesToFileError" "dataFile (snd r) = dataFile s"
       "blobs (snd r) = blobs s" "sameMemory s (snd r)"
    unfolding r_def by (simp_all add: addNewPost_blob_fails [OF assms] sameMemory_def)
  then show ?thesis by (simp add: c)
qed

lemma CreateNewPost_log_fails:
  assumes "blobWrite fx" "logWrite fx = WriteFailed n"
  shows "case CreateNewPost E s subject msg user ipAddr fx of
           (tid, err, s') \<Rightarrow>
             err = Some WriteStringError \<and> sameMemory s s'
             \<and> blobs s' = writeFile (MessageFilePath s (copy20 (Sha1OfBytes E msg))) msg (blobs s)"
proof -
  define t where "t = \<lparr>TopicId = (if len (topics s) > 0
                            then int64 (TopicId (topicsList s ! (len (topics s) - 1)) + 1)
                            else 1),
                Subject = remSep subject, Posts = Slice 0 0 0\<rparr>"
  define s1 where "s1 = s\<lparr>topicArrays := topicArrays s @ [[t]]\<rparr>"
  define r where "r = addNewPost E s1 msg user ipAddr (length (topicArrays s), 0) True fx"
  have c: "CreateNewPost E s subject msg user ipAddr fx
             = (TopicId (derefTopic (snd r) (length (topicArrays s), 0)), fst r, snd r)"
    unfolding r_def s1_def t_def by (simp only: CreateNewPost_addNewPost Let_def)
  have l: "fst r = Some WriteStringError" "sameMemory s1 (snd r)"
       "blobs (snd r) = writeFile (MessageFilePath s1 (copy20 (Sha1OfBytes E msg))) msg (blobs s1)"
    unfolding r_def using addNewPost_log_fails [OF assms, of E s1] by simp_all
  have "sameMemory s (snd r)"
    using l(2) unfolding s1_def by (rule sameMemory_alloc)
  moreover have "MessageFilePath s1 x = MessageFilePath s x" for x
    by (simp add: MessageFilePath_def s1_def)
  moreover have "blobs s1 = blobs s" by (simp add: s1_def)
  ultimately show ?thesis using l by (simp add: c)
qed

lemma CreateNewPost_succeeds:
  assumes "blobWrite fx" "logWrite fx = Written"
  shows "case CreateNewPost E s subject msg user ipAddr fx of
           (tid, err, s') \<Rightarrow>
             err = None
             \<and> blobs s' = writeFile (MessageFilePath s (copy20 (Sha1OfBytes E msg))) msg (blobs s)
             \<and> length (dataFile s') > length (dataFile s)
             \<and> take (length (dataFile s)) (dataFile s') = dataFile s
             \<and> length (posts s') = Suc (length (posts s))"
proof -
  define t where "t = \<lparr>TopicId = (if len (topics s) > 0
                            then int64 (TopicId (topicsList s ! (len (topics s) - 1)) + 1)
                            else 1),
                Subject = remSep subject, Posts = Slice 0 0 0\<rparr>"
  define s1 where "s1 = s\<lparr>topicArrays := topicArrays s @ [[t]]\<rparr>"
  define r where "r = addNewPost E s1 msg user ipAddr (length (topicArrays s), 0) True fx"
  have c: "CreateNewPost E s subject msg user ipAddr fx
             = (TopicId (derefTopic (snd r) (length (topicArrays s), 0)), fst r, snd r)"
    unfolding r_def s1_def t_def by (simp only: CreateNewPost_addNewPost Let_def)
  have l: "fst r = None"
       "blobs (snd r) = writeFile (MessageFilePath s1 (copy20 (Sha1OfBytes E msg))) msg (blobs s1)"
       "length (dataFile (snd r)) > length (dataFile s1)"
       "take (length (dataFile s1)) (dataFile (snd r)) = dataFile s1"
       "length (posts (snd r)) = Suc (length (posts s1))"
    unfolding r_def using addNewPost_succeeds [OF assms, of E s1] by simp_all
  have "MessageFilePath s1 x = MessageFilePath s x" for x
    by (simp add: MessageFilePath_def s1_def)
  moreover have "blobs s1 = blobs s" "dataFile s1 = dataFile s" "posts s1 = posts s"
    by (simp_all add: s1_def)
  ultimately show ?thesis using l by (simp add: c)
qed


lemma AddPostToTopic_found:
  assumes "topicByIdUnlocked s topicId \<noteq> None"
  shows "\<exists>t. AddPostToTopic E s topicId msg user ipAddr fx
               = addNewPost E s msg user ipAddr t False fx"
proof -
  from assms obtain t where "topicByIdUnlocked s topicId = Some t" by auto
  then have "AddPostToTopic E s topicId msg user ipAddr fx
               = addNewPost E s msg user ipAddr t False fx"
    by (simp add: AddPostToTopic_def)
  then show ?thesis ..
qed

text \<open>
  C10. CreateNewPost and AddPostToTopic write the blob, then append to the log, then
  change the memory. AddPostToTopic first looks the topic up, and with an unknown
  topic id returns an error and the state it was given. When the blob write fails,
  the call returns its error, the log file and the blobs are as before and the memory
  is unchanged. When the blob write succeeds and the log write fails, the call
  returns the error of the write, the blob has been written and the memory is
  unchanged. When both succeed the call returns no error, the blob has been written,
  the log file has grown at its end and store.posts has one pointer more.
\<close>

theorem post_creation_order:
  "(topicByIdUnlocked s topicId = None \<longrightarrow>
      AddPostToTopic E s topicId msg user ipAddr fx
        = (Some (ErrorString ''invalid topicId''), s))
   \<and> (\<not> blobWrite fx \<longrightarrow>
        (case CreateNewPost E s subject msg user ipAddr fx of
           (tid, err, s') \<Rightarrow>
             err = Some WriteBytesToFileError \<and> dataFile s' = dataFile s
             \<and> blobs s' = blobs s \<and> sameMemory s s')
      \<and> (topicByIdUnlocked s topicId \<noteq> None \<longrightarrow>
           (case AddPostToTopic E s topicId msg user ipAddr fx of
              (err, s') \<Rightarrow>
                err = Some WriteBytesToFileError \<and> dataFile s' = dataFile s
                \<and> blobs s' = blobs s \<and> sameMemory s s')))
   \<and> (blobWrite fx \<and> logWrite fx = WriteFailed n \<longrightarrow>
        (case CreateNewPost E s subject msg user ipAddr fx of
           (tid, err, s') \<Rightarrow>
             err = Some WriteStringError \<and> sameMemory s s'
             \<and> blobs s' = writeFile (MessageFilePath s (copy20 (Sha1OfBytes E msg))) msg (blobs s))
      \<and> (topicByIdUnlocked s topicId \<noteq> None \<longrightarrow>
           (case AddPostToTopic E s topicId msg user ipAddr fx of
              (err, s') \<Rightarrow>
                err = Some WriteStringError \<and> sameMemory s s'
                \<and> blobs s' = writeFile (MessageFilePath s (copy20 (Sha1OfBytes E msg))) msg (blobs s))))
   \<and> (blobWrite fx \<and> logWrite fx = Written \<longrightarrow>
        (case CreateNewPost E s subject msg user ipAddr fx of
           (tid, err, s') \<Rightarrow>
             err = None
             \<and> blobs s' = writeFile (MessageFilePath s (copy20 (Sha1OfBytes E msg))) msg (blobs s)
             \<and> length (dataFile s') > length (dataFile s)
             \<and> take (length (dataFile s)) (dataFile s') = dataFile s
             \<and> length (posts s') = Suc (length (posts s)))
      \<and> (topicByIdUnlocked s topicId \<noteq> None \<longrightarrow>
           (case AddPostToTopic E s topicId msg user ipAddr fx of
              (err, s') \<Rightarrow>
                err = None
                \<and> blobs s' = writeFile (MessageFilePath s (copy20 (Sha1OfBytes E msg))) msg (blobs s)
                \<and> length (dataFile s') > length (dataFile s)
                \<and> take (length (dataFile s)) (dataFile s') = dataFile s
                \<and> length (posts s') = Suc (length (posts s)))))"
proof (intro conjI impI)
  assume "topicByIdUnlocked s topicId = None"
  then show "AddPostToTopic E s topicId msg user ipAddr fx
        = (Some (ErrorString ''invalid topicId''), s)"
    by (simp add: AddPostToTopic_def)
next
  assume "\<not> blobWrite fx"
  then show "case CreateNewPost E s subject msg user ipAddr fx of
           (tid, err, s') \<Rightarrow>
             err = Some WriteBytesToFileError \<and> dataFile s' = dataFile s
             \<and> blobs s' = blobs s \<and> sameMemory s s'"
    by (rule CreateNewPost_blob_fails)
next
  assume b: "\<not> blobWrite fx" and "topicByIdUnlocked s topicId \<noteq> None"
  from AddPostToTopic_found [OF this(2)]
  obtain t where "AddPostToTopic E s topicId msg user ipAddr fx
               = addNewPost E s msg user ipAddr t False fx" by blast
  then show "case AddPostToTopic E s topicId msg user ipAddr fx of
              (err, s') \<Rightarrow>
                err = Some WriteBytesToFileError \<and> dataFile s' = dataFile s
                \<and> blobs s' = blobs s \<and> sameMemory s s'"
    by (simp add: addNewPost_blob_fails [OF b] sameMemory_def)
next
  assume "blobWrite fx \<and> logWrite fx = WriteFailed n"
  then have "blobWrite fx" "logWrite fx = WriteFailed n" by simp_all
  then show "case CreateNewPost E s subject msg user ipAddr fx of
           (tid, err, s') \<Rightarrow>
             err = Some WriteStringError \<and> sameMemory s s'
             \<and> blobs s' = writeFile (MessageFilePath s (copy20 (Sha1OfBytes E msg))) msg (blobs s)"
    by (rule CreateNewPost_log_fails)
next
  assume a: "blobWrite fx \<and> logWrite fx = WriteFailed n" "topicByIdUnlocked s topicId \<noteq> None"
  from AddPostToTopic_found [OF this(2)]
  obtain t where t: "AddPostToTopic E s topicId msg user ipAddr fx
               = addNewPost E s msg user ipAddr t False fx" by blast
  from a have "blobWrite fx" "logWrite fx = WriteFailed n" by simp_all
  from addNewPost_log_fails [OF this, of E s msg user ipAddr t False]
  show "case AddPostToTopic E s topicId msg user ipAddr fx of
              (err, s') \<Rightarrow>
                err = Some WriteStringError \<and> sameMemory s s'
                \<and> blobs s' = writeFile (MessageFilePath s (copy20 (Sha1OfBytes E msg))) msg (blobs s)"
    by (simp add: t split_beta)
next
  assume "blobWrite fx \<and> logWrite fx = Written"
  then have "blobWrite fx" "logWrite fx = Written" by simp_all
  then show "case CreateNewPost E s subject msg user ipAddr fx of
           (tid, err, s') \<Rightarrow>
             err = None
             \<and> blobs s' = writeFile (MessageFilePath s (copy20 (Sha1OfBytes E msg))) msg (blobs s)
             \<and> length (dataFile s') > length (dataFile s)
             \<and> take (length (dataFile s)) (dataFile s') = dataFile s
             \<and> length (posts s') = Suc (length (posts s))"
    by (rule CreateNewPost_succeeds)
next
  assume a: "blobWrite fx \<and> logWrite fx = Written" "topicByIdUnlocked s topicId \<noteq> None"
  from AddPostToTopic_found [OF this(2)]
  obtain t where t: "AddPostToTopic E s topicId msg user ipAddr fx
               = addNewPost E s msg user ipAddr t False fx" by blast
  from a have "blobWrite fx" "logWrite fx = Written" by simp_all
  from addNewPost_succeeds [OF this, of E s msg user ipAddr t False]
  show "case AddPostToTopic E s topicId msg user ipAddr fx of
              (err, s') \<Rightarrow>
                err = None
                \<and> blobs s' = writeFile (MessageFilePath s (copy20 (Sha1OfBytes E msg))) msg (blobs s)
                \<and> length (dataFile s') > length (dataFile s)
                \<and> take (length (dataFile s)) (dataFile s') = dataFile s
                \<and> length (posts s') = Suc (length (posts s))"
    by (simp add: t split_beta)
qed

theorem post_creation_order_witness:
  "AddPostToTopic env0 emptyStore 7 ''m'' ''alice'' ''127.0.0.1'' good
     = (Some (ErrorString ''invalid topicId''), emptyStore)
   \<and> (case CreateNewPost env0 emptyStore ''Hello'' ''hi there'' ''alice'' ''127.0.0.1''
              (good\<lparr>blobWrite := False\<rparr>) of
         (tid, err, s') \<Rightarrow>
           err = Some WriteBytesToFileError \<and> dataFile s' = [] \<and> blobs s' = []
           \<and> sameMemory emptyStore s')
   \<and> (case AddPostToTopic env0 (after emptyStore oneTopic) 1 ''a reply'' ''bob'' ''127.0.0.1''
              (good\<lparr>logWrite := WriteFailed 3\<rparr>) of
         (err, s') \<Rightarrow>
           err = Some WriteStringError \<and> sameMemory (after emptyStore oneTopic) s'
           \<and> length (blobs s') = 1)
   \<and> (case AddPostToTopic env0 (after emptyStore oneTopic) 1 ''a reply'' ''bob'' ''127.0.0.1''
              good of
         (err, s') \<Rightarrow> err = None \<and> length (posts s') = 2)"
proof -
  let ?s = "after emptyStore oneTopic"
  have n: "topicByIdUnlocked emptyStore 7 = None" by code_simp
  have f: "topicByIdUnlocked ?s 1 \<noteq> None" by code_simp
  have b: "\<not> blobWrite (good\<lparr>blobWrite := False\<rparr>)" by simp
  have w: "blobWrite (good\<lparr>logWrite := WriteFailed 3\<rparr>)
             \<and> logWrite (good\<lparr>logWrite := WriteFailed 3\<rparr>) = WriteFailed 3"
    by (simp add: good_def)
  have g: "blobWrite good \<and> logWrite good = Written" by (simp add: good_def)
  have e: "dataFile emptyStore = []" "blobs emptyStore = []" by (simp_all add: emptyStore_def)
  have l: "length (writeFile (MessageFilePath ?s (copy20 (Sha1OfBytes env0 ''a reply'')))
             ''a reply'' (blobs ?s)) = 1" by code_simp
  have p: "length (posts ?s) = 1" by code_simp
  have 1: "AddPostToTopic env0 emptyStore 7 ''m'' ''alice'' ''127.0.0.1'' good
     = (Some (ErrorString ''invalid topicId''), emptyStore)"
    using post_creation_order [where s = emptyStore and topicId = 7 and E = env0 and msg = "''m''"
        and user = "''alice''" and ipAddr = "''127.0.0.1''" and fx = good] n
    by blast
  have 2: "case CreateNewPost env0 emptyStore ''Hello'' ''hi there'' ''alice'' ''127.0.0.1''
              (good\<lparr>blobWrite := False\<rparr>) of
         (tid, err, s') \<Rightarrow>
           err = Some WriteBytesToFileError \<and> dataFile s' = [] \<and> blobs s' = []
           \<and> sameMemory emptyStore s'"
    using post_creation_order [where s = emptyStore and E = env0 and msg = "''hi there''"
        and user = "''alice''" and ipAddr = "''127.0.0.1''"
        and fx = "good\<lparr>blobWrite := False\<rparr>" and subject = "''Hello''"] b e
    by (simp add: split_beta)
  have 3: "case AddPostToTopic env0 ?s 1 ''a reply'' ''bob'' ''127.0.0.1''
              (good\<lparr>logWrite := WriteFailed 3\<rparr>) of
         (err, s') \<Rightarrow>
           err = Some WriteStringError \<and> sameMemory ?s s' \<and> length (blobs s') = 1"
    using post_creation_order [where s = ?s and topicId = 1 and E = env0 and msg = "''a reply''"
        and user = "''bob''" and ipAddr = "''127.0.0.1''"
        and fx = "good\<lparr>logWrite := WriteFailed 3\<rparr>" and n = 3] w f l
    by (simp add: split_beta)
  have 4: "case AddPostToTopic env0 ?s 1 ''a reply'' ''bob'' ''127.0.0.1'' good of
         (err, s') \<Rightarrow> err = None \<and> length (posts s') = 2"
    using post_creation_order [where s = ?s and topicId = 1 and E = env0 and msg = "''a reply''"
        and user = "''bob''" and ipAddr = "''127.0.0.1''" and fx = good]
      g f p
    by (simp add: split_beta)
  from 1 2 3 4 show ?thesis by blast
qed

section \<open>Where the code departs from the specification\<close>

text \<open>
  C1. Closing and reopening does not always give back the state. From the empty store,
  two topics are created and a reply is added to the first; every call succeeds, and
  the first topic has the posts 1 and 2. The replay of the log that was written
  returns a store whose first topic has post 1 only: the replayer's map from topic
  ids to topics points into the array that \<open>topics\<close> had before \<open>append\<close> moved it, so
  the reply is appended to a copy of the topic that the returned slice does not hold.
  A second case: after BlockIp alone, the replay panics, because the record has no
  newline.
\<close>

theorem reopen_loses_reply:
  "NewStore env0 ''data'' ''forum'' None [] allOk = Returns (Inr emptyStore)
   \<and> errorsOf emptyStore twoTopicsAndReply = Returns [None, None, None]
   \<and> postIdsByTopic (after emptyStore twoTopicsAndReply) = [(1, [1, 2]), (2, [1])]
   \<and> reopened_postIdsByTopic env0 (after emptyStore twoTopicsAndReply)
       = Returns (Inr [(1, [1]), (2, [1])])
   \<and> reopen env0 (after emptyStore [CallBlockIp ''1.2.3.4'' Written])
       = Panics ''idx shouldn't be -1''"
  by code_simp

text \<open>
  C2. The record BlockIp and UnblockIp append starts with the characters U and colon,
  not with B, and does not end with a newline: for the address 1.2.3.4 on the empty
  store the log file is the twelve characters U:01020304|1 afterwards.
\<close>

theorem blockIp_appends_U_record:
  "dataFile (BlockIp s ipAddr Written) = dataFile s @ ''U:'' @ ipAddrToInternal ipAddr @ ''|1''
   \<and> dataFile (UnblockIp s ipAddr Written)
       = dataFile s @ ''U:'' @ ipAddrToInternal ipAddr @ ''|0''
   \<and> dataFile (BlockIp emptyStore ''1.2.3.4'' Written) = ''U:01020304|1''
   \<and> dataFile (UnblockIp emptyStore ''1.2.3.4'' Written) = ''U:01020304|0''"
proof -
  have "dataFile (BlockIp emptyStore ''1.2.3.4'' Written) = ''U:01020304|1''"
       "dataFile (UnblockIp emptyStore ''1.2.3.4'' Written) = ''U:01020304|0''"
    by code_simp+
  then show ?thesis
    by (simp add: BlockIp_def UnblockIp_def blockIp_def unblockIp_def appendString_def)
qed

text \<open>
  C3. The pointer that store.posts holds for a post goes stale when a later append
  moves the topic's posts to a new array. A topic is created, a reply is added, the
  first post is deleted; all three calls succeed. The post found through the topic
  (findPost 1 1) is deleted, but the entry for post 1 that GetRecentPosts and
  GetPostsByUserInternal return still has IsDeleted = false.
\<close>

theorem global_sequence_stale_after_append:
  "errorsOf emptyStore replyThenDelete = Returns [None, None, None]
   \<and> findPost (after emptyStore replyThenDelete) 1 1 = Returns (Inr (1, 0))
   \<and> PostId (derefPost (after emptyStore replyThenDelete) (1, 0)) = 1
   \<and> IsDeleted (derefPost (after emptyStore replyThenDelete) (1, 0)) = True
   \<and> GetRecentPosts (after emptyStore replyThenDelete) 2 = Returns [(1, 1), (0, 0)]
   \<and> GetPostsByUserInternal (after emptyStore replyThenDelete) ''alice'' 5 = [(0, 0)]
   \<and> PostId (derefPost (after emptyStore replyThenDelete) (0, 0)) = 1
   \<and> IsDeleted (derefPost (after emptyStore replyThenDelete) (0, 0)) = False"
  by code_simp

text \<open>
  C5. With the id of an existing topic and the post id 0, or a negative one, DeletePost
  and UndeletePost panic: findPost checks the post id against the number of posts
  only from above and then indexes the posts with postId - 1.
\<close>

theorem DeletePost_panics_on_post_id_zero:
  "topicIds (after emptyStore oneTopic) = [1]
   \<and> DeletePost (after emptyStore oneTopic) 1 0 Written = Panics ''index out of range''
   \<and> UndeletePost (after emptyStore oneTopic) 1 0 Written = Panics ''index out of range''
   \<and> DeletePost (after emptyStore oneTopic) 1 (- 5) Written = Panics ''index out of range''"
  by code_simp

text \<open>
  C7. With three topics, GetTopics for a page of two from offset 0 returns the two
  newest topics and the next offset 0, although the oldest topic has not been
  returned: the offset wraps when one topic is left, not when none is.
\<close>

theorem GetTopics_wraps_one_topic_early:
  "topicIds (after emptyStore threeTopics) = [1, 2, 3]
   \<and> GetTopics (after emptyStore threeTopics) 2 0 False = Returns ([(5, 2), (5, 1)], 0)
   \<and> map (\<lambda>p. TopicId (derefTopic (after emptyStore threeTopics) p)) [(5, 2), (5, 1)] = [3, 2]
   \<and> GetTopics (after emptyStore threeTopics) 1 1 False = Returns ([(5, 1)], 0)"
  by code_simp

text \<open>
  C8. With two posts of the user alice in the store, GetPostsByUserInternal with the
  bound 1 returns both, and with the bound 0 it returns one; GetPostsByIpInternal does
  the same: the loop stops when the result is longer than the bound.
\<close>

theorem GetPostsBy_returns_one_more_than_bound:
  "GetPostsByUserInternal (after emptyStore twoPostsOfAlice) ''alice'' 1 = [(1, 1), (0, 0)]
   \<and> GetPostsByUserInternal (after emptyStore twoPostsOfAlice) ''alice'' 0 = [(1, 1)]
   \<and> GetPostsByIpInternal (after emptyStore twoPostsOfAlice) ''7f000001'' 1 = [(1, 1), (0, 0)]
   \<and> GetPostsByIpInternal (after emptyStore twoPostsOfAlice) ''7f000001'' 0 = [(1, 1)]"
  by code_simp

section \<open>Well-formed memory is kept by every operation\<close>

subsection \<open>Appending to a slice\<close>

lemma length_cells: "goodSlice arrays s \<Longrightarrow> length (cells arrays s) = len s"
  by (auto simp: goodSlice_def cells_def)

lemma cells_subset: "goodSlice arrays s \<Longrightarrow> x \<in> set (cells arrays s) \<Longrightarrow> \<exists>a \<in> set arrays. x \<in> set a"
  by (auto simp: goodSlice_def cells_def split: if_splits dest: in_set_takeD)

lemma append_slice_new:
  assumes "goodSlice arrays s" "append_slice g z arrays s x = (s', arrays')"
  shows "goodSlice arrays' s' \<and> cells arrays' s' = cells arrays s @ [x]
         \<and> len s' = Suc (len s) \<and> length arrays \<le> length arrays'"
proof (cases "len s < cap s")
  case True
  with assms have a: "arr s < length arrays" "length (arrays ! arr s) = cap s"
    by (auto simp: goodSlice_def)
  from True assms(2) have e: "s' = Slice (arr s) (Suc (len s)) (cap s)"
      "arrays' = arrays[arr s := (arrays ! arr s)[len s := x]]"
    by (auto simp: append_slice_def)
  from True a have "take (Suc (len s)) ((arrays ! arr s)[len s := x]) = take (len s) (arrays ! arr s) @ [x]"
    by (simp add: take_Suc_conv_app_nth)
  with True a e show ?thesis
    by (simp add: goodSlice_def cells_def)
next
  case False
  with assms(1) have l: "len s = cap s" by (simp add: goodSlice_def)
  from False assms(2) have e: "s' = Slice (length arrays) (Suc (len s)) (max (Suc (len s)) (g (cap s)))"
      "arrays' = arrays @ [cells arrays s @ x # replicate (max (Suc (len s)) (g (cap s)) - Suc (len s)) z]"
    by (auto simp: append_slice_def Let_def)
  from length_cells [OF assms(1)] e show ?thesis
    by (simp add: goodSlice_def cells_def)
qed

lemma append_slice_old:
  assumes "goodSlice arrays s" "goodSlice arrays t" "append_slice g z arrays s x = (s', arrays')"
  shows "goodSlice arrays' t
         \<and> (cells arrays' t = cells arrays t
            \<or> (len s < len t \<and> cells arrays' t = (cells arrays t)[len s := x]))"
proof (cases "len s < cap s")
  case True
  with assms have a: "arr s < length arrays" "length (arrays ! arr s) = cap s"
    by (auto simp: goodSlice_def)
  from True assms(3) have e: "arrays' = arrays[arr s := (arrays ! arr s)[len s := x]]"
    by (auto simp: append_slice_def)
  show ?thesis
  proof (cases "cap t = 0")
    case True
    with assms(2) show ?thesis by (simp add: goodSlice_def cells_def)
  next
    case c: False
    with assms(2) have b: "arr t < length arrays" "length (arrays ! arr t) = cap t" "len t \<le> cap t"
      by (auto simp: goodSlice_def)
    show ?thesis
    proof (cases "arr t = arr s")
      case True
      with a b c e have g: "goodSlice arrays' t" by (simp add: goodSlice_def)
      from True a b c e have "cells arrays' t = take (len t) ((arrays ! arr s)[len s := x])"
        by (simp add: cells_def)
      also have "\<dots> = (take (len t) (arrays ! arr s))[len s := x]"
        by (simp add: take_update_swap)
      finally have "cells arrays' t = (cells arrays t)[len s := x]"
        using True c by (simp add: cells_def)
      moreover have "(cells arrays t)[len s := x] = cells arrays t" if "len t \<le> len s"
        using length_cells [OF assms(2)] that by (intro list_update_beyond) simp
      ultimately show ?thesis using g by (cases "len s < len t") auto
    next
      case False
      with a b c e show ?thesis by (simp add: goodSlice_def cells_def)
    qed
  qed
next
  case False
  from False assms(3) have e: "\<exists>new. arrays' = arrays @ [new]"
    by (auto simp: append_slice_def Let_def)
  with assms(2) show ?thesis
    by (auto simp: goodSlice_def cells_def nth_append)
qed

lemma append_slice_validPtr:
  assumes "validPtr arrays p" "append_slice g z arrays s x = (s', arrays')"
  shows "validPtr arrays' p"
proof (cases "len s < cap s")
  case True
  with assms(2) have e: "arrays' = arrays[arr s := (arrays ! arr s)[len s := x]]"
    by (auto simp: append_slice_def)
  with assms(1) show ?thesis
    by (cases "fst p = arr s") (auto simp: validPtr_def)
next
  case False
  from False assms(2) have e: "\<exists>new. arrays' = arrays @ [new]"
    by (auto simp: append_slice_def Let_def)
  with assms(1) show ?thesis
    by (auto simp: validPtr_def nth_append)
qed

lemma append_slice_all:
  assumes "P x" "P z" "list_all (list_all P) arrays" "goodSlice arrays s"
      and "append_slice g z arrays s x = (s', arrays')"
  shows "list_all (list_all P) arrays'"
proof (cases "len s < cap s")
  case True
  with assms(5) have e: "arrays' = arrays[arr s := (arrays ! arr s)[len s := x]]"
    by (auto simp: append_slice_def)
  have "\<And>a y. a \<in> set arrays' \<Longrightarrow> y \<in> set a \<Longrightarrow> P y"
  proof -
    fix a y assume a: "a \<in> set arrays'" "y \<in> set a"
    from a(1) e have "a \<in> insert ((arrays ! arr s)[len s := x]) (set arrays)"
      using set_update_subset_insert by fastforce
    then consider "a = (arrays ! arr s)[len s := x]" | "a \<in> set arrays" by blast
    then show "P y"
    proof cases
      case 1
      with a(2) have "y \<in> insert x (set (arrays ! arr s))"
        using set_update_subset_insert by fastforce
      moreover have "arr s < length arrays" using True assms(4) by (auto simp: goodSlice_def)
      ultimately show ?thesis using assms(1,3) by (auto simp: list_all_iff)
    next
      case 2
      with a(2) assms(3) show ?thesis by (auto simp: list_all_iff)
    qed
  qed
  then show ?thesis by (auto simp: list_all_iff)
next
  case False
  from False assms(5) have e: "arrays' = arrays @ [cells arrays s @ x # replicate (max (Suc (len s)) (g (cap s)) - Suc (len s)) z]"
    by (auto simp: append_slice_def Let_def)
  have "list_all P (cells arrays s)"
    using cells_subset [OF assms(4)] assms(3) by (auto simp: list_all_iff)
  with e assms(1,2,3) show ?thesis
    by (auto simp: list_all_iff)
qed

subsection \<open>Post ids in the arrays\<close>

lemma upto_1_nth: "i < n \<Longrightarrow> [1..int n] ! i = int i + 1"
  by (simp add: nth_upto)

lemma upto_1_Suc: "[1..int (Suc n)] = [1..int n] @ [int n + 1]"
  using upto_rec2 [of 1 "int n + 1"] by (simp add: add.commute)

lemma goodPosts_append_new:
  assumes "goodPosts arrays s" "PostId x = int (len s) + 1"
      and "append_slice g z arrays s x = (s', arrays')"
  shows "goodPosts arrays' s'"
proof -
  from assms(1) have g: "goodSlice arrays s" "map PostId (cells arrays s) = [1..int (len s)]"
    by (simp_all add: goodPosts_def)
  from append_slice_new [OF g(1) assms(3)] g(2) assms(2) show ?thesis
    by (simp add: goodPosts_def upto_1_Suc del: of_nat_Suc)
qed

lemma goodPosts_append_old:
  assumes "goodPosts arrays s" "goodPosts arrays t" "PostId x = int (len s) + 1"
      and "append_slice g z arrays s x = (s', arrays')"
  shows "goodPosts arrays' t"
proof -
  from assms(1,2) have g: "goodSlice arrays s" "goodSlice arrays t"
      "map PostId (cells arrays t) = [1..int (len t)]"
    by (simp_all add: goodPosts_def)
  from append_slice_old [OF g(1,2) assms(4)]
  have o: "goodSlice arrays' t" "cells arrays' t = cells arrays t
            \<or> (len s < len t \<and> cells arrays' t = (cells arrays t)[len s := x])" by simp_all
  from o(2) have "map PostId (cells arrays' t) = [1..int (len t)]"
  proof
    assume "cells arrays' t = cells arrays t"
    with g(3) show ?thesis by simp
  next
    assume a: "len s < len t \<and> cells arrays' t = (cells arrays t)[len s := x]"
    then have "map PostId (cells arrays' t) = [1..int (len t)][len s := int (len s) + 1]"
      using g(3) assms(3) by (simp add: map_update)
    also have "\<dots> = [1..int (len t)]"
      using a upto_1_nth [of "len s" "len t"] by (simp add: list_update_same_conv)
    finally show ?thesis .
  qed
  with o(1) show ?thesis by (simp add: goodPosts_def)
qed

lemma wfHeap_append_post:
  assumes "wfHeap parrays tarrays" "goodPosts parrays s" "PostId x = int (len s) + 1"
      and "append_slice g z parrays s x = (s', parrays')"
  shows "wfHeap parrays' tarrays"
  using assms goodPosts_append_old [OF assms(2) _ assms(3,4)]
  by (auto simp: wfHeap_def list_all_iff)

lemma list_all_update_cell:
  assumes "list_all (list_all P) arrays" "P y"
  shows "list_all (list_all P) (arrays[a := (arrays ! a)[i := y]])"
proof (cases "a < length arrays")
  case True
  have "list_all P ((arrays ! a)[i := y])"
  proof -
    have "set ((arrays ! a)[i := y]) \<subseteq> insert y (set (arrays ! a))"
      by (rule set_update_subset_insert)
    moreover have "list_all P (arrays ! a)" using True assms(1) by (simp add: list_all_length)
    ultimately show ?thesis using assms(2) by (auto simp: list_all_iff)
  qed
  moreover have "set (arrays[a := (arrays ! a)[i := y]]) \<subseteq> insert ((arrays ! a)[i := y]) (set arrays)"
    by (rule set_update_subset_insert)
  ultimately show ?thesis using assms(1) by (auto simp: list_all_iff)
next
  case False
  then have "arrays[a := (arrays ! a)[i := y]] = arrays"
    by (intro list_update_beyond) simp
  with assms(1) show ?thesis by simp
qed

lemma wfHeap_store_topic:
  assumes "wfHeap parrays tarrays" "goodPosts parrays (Posts t)"
  shows "wfHeap parrays (tarrays[a := (tarrays ! a)[i := t]])"
  using assms unfolding wfHeap_def by (intro list_all_update_cell) simp_all

lemma goodSlice_update_cell [simp]:
  "goodSlice (arrays[a := (arrays ! a)[i := y]]) s = goodSlice arrays s"
  by (cases "arr s = a") (auto simp: goodSlice_def)

lemma validPtr_update_cell [simp]:
  "validPtr (arrays[a := (arrays ! a)[i := y]]) p = validPtr arrays p"
  by (cases "fst p = a") (auto simp: validPtr_def)

lemma map_update_same:
  assumes "i < length xs \<Longrightarrow> f y = f (xs ! i)"
  shows "map f (xs[i := y]) = map f xs"
proof (cases "i < length xs")
  case True
  with assms have "(map f xs)[i := f y] = map f xs"
    by (simp add: list_update_same_conv)
  then show ?thesis by (simp add: map_update)
next
  case False
  then have "xs[i := y] = xs" by (intro list_update_beyond) simp
  then show ?thesis by simp
qed

lemma cells_update_cell_same:
  assumes "\<And>x. a < length arrays \<Longrightarrow> i < length (arrays ! a) \<Longrightarrow> f y = f (arrays ! a ! i)"
  shows "map f (cells (arrays[a := (arrays ! a)[i := y]]) s) = map f (cells arrays s)"
proof (cases "cap s \<noteq> 0 \<and> arr s = a \<and> a < length arrays")
  case True
  then have "cells (arrays[a := (arrays ! a)[i := y]]) s = take (len s) ((arrays ! a)[i := y])"
    by (simp add: cells_def)
  then have "map f (cells (arrays[a := (arrays ! a)[i := y]]) s)
               = take (len s) (map f ((arrays ! a)[i := y]))"
    by (simp add: take_map)
  also have "map f ((arrays ! a)[i := y]) = map f (arrays ! a)"
    using assms True by (intro map_update_same) simp
  finally show ?thesis using True by (simp add: cells_def take_map)
next
  case False
  have "arrays[a := (arrays ! a)[i := y]] ! arr s = arrays ! arr s"
    if "cap s \<noteq> 0"
  proof (cases "a < length arrays")
    case True
    with False that show ?thesis by simp
  next
    case False
    then have "arrays[a := (arrays ! a)[i := y]] = arrays"
      by (intro list_update_beyond) simp
    then show ?thesis by simp
  qed
  then show ?thesis by (auto simp: cells_def)
qed

lemma goodPosts_set_flag:
  assumes "goodPosts arrays s"
  shows "goodPosts (arrays[a := (arrays ! a)[i := (arrays ! a ! i)\<lparr>IsDeleted := v\<rparr>]]) s"
proof -
  have "map PostId (cells (arrays[a := (arrays ! a)[i := (arrays ! a ! i)\<lparr>IsDeleted := v\<rparr>]]) s)
          = map PostId (cells arrays s)"
    by (rule cells_update_cell_same) simp
  with assms show ?thesis by (simp add: goodPosts_def)
qed

lemma wfHeap_set_flag:
  assumes "wfHeap arrays tarrays"
  shows "wfHeap (arrays[a := (arrays ! a)[i := (arrays ! a ! i)\<lparr>IsDeleted := v\<rparr>]]) tarrays"
  using assms goodPosts_set_flag by (auto simp: wfHeap_def list_all_iff)

lemma wfHeap_append_topic:
  assumes "wfHeap parrays tarrays" "goodSlice tarrays s" "goodPosts parrays (Posts x)"
      and "append_slice g zeroTopic tarrays s x = (s', tarrays')"
  shows "wfHeap parrays tarrays'"
proof -
  have z: "goodPosts parrays (Posts zeroTopic)"
    by (simp add: zeroTopic_def goodPosts_def goodSlice_def cells_def)
  from assms(1) have a: "list_all (list_all (\<lambda>t. goodPosts parrays (Posts t))) tarrays"
    by (simp add: wfHeap_def)
  have "list_all (list_all (\<lambda>t. goodPosts parrays (Posts t))) tarrays'"
    using assms(3) z a assms(2) assms(4)
    by (rule append_slice_all [where P = "\<lambda>t. goodPosts parrays (Posts t)"])
  then show ?thesis by (simp add: wfHeap_def)
qed

subsection \<open>The mutation calls\<close>

lemma wf_frame [simp]:
  "wf (s\<lparr>printed := a\<rparr>) = wf s" "wf (s\<lparr>dataFile := b\<rparr>) = wf s"
  "wf (s\<lparr>blobs := c\<rparr>) = wf s" "wf (s\<lparr>posts := d\<rparr>) = wf s"
  by (simp_all add: wf_def)

lemma addNewPost_failed:
  assumes "fst (addNewPost E s msg user ipAddr topic newTopic fx) \<noteq> None"
  shows "postArrays (snd (addNewPost E s msg user ipAddr topic newTopic fx)) = postArrays s
       \<and> topicArrays (snd (addNewPost E s msg user ipAddr topic newTopic fx)) = topicArrays s
       \<and> topics (snd (addNewPost E s msg user ipAddr topic newTopic fx)) = topics s
       \<and> posts (snd (addNewPost E s msg user ipAddr topic newTopic fx)) = posts s"
proof (cases "blobWrite fx")
  case False
  then show ?thesis
    by (simp add: addNewPost_def writeMessageAsSha1_def WriteBytesToFile_def Let_def)
next
  case True
  show ?thesis
  proof (cases "logWrite fx")
    case Written
    with True assms show ?thesis
      by (simp add: addNewPost_def writeMessageAsSha1_def WriteBytesToFile_def Let_def
          appendString_def split_beta)
  next
    case (WriteFailed n)
    with True show ?thesis
      by (simp add: addNewPost_def writeMessageAsSha1_def WriteBytesToFile_def Let_def
          appendString_def)
  qed
qed

lemma addNewPost_done:
  assumes "fst (addNewPost E s msg user ipAddr topic newTopic fx) = None"
      and "append_slice (growPosts E) zeroPost (postArrays s) (Posts (derefTopic s topic))
             \<lparr>PostId = int (len (Posts (derefTopic s topic))) + 1,
              CreatedOn = Now fx,
              MessageSha1 = copy20 (Sha1OfBytes E msg),
              UserNameInternal = remSep user,
              IpAddrInternal = remSep (ipAddrToInternal ipAddr),
              IsDeleted = False,
              Topic = Some topic\<rparr> = (ps, parrays)"
      and "tarrays1 = (topicArrays s)[fst topic := (topicArrays s ! fst topic)
                         [snd topic := (derefTopic s topic)\<lparr>Posts := ps\<rparr>]]"
      and "append_slice (growTopics E) zeroTopic tarrays1 (topics s)
             (tarrays1 ! fst topic ! snd topic) = (ts, tarrays2)"
  shows "postArrays (snd (addNewPost E s msg user ipAddr topic newTopic fx)) = parrays
       \<and> topicArrays (snd (addNewPost E s msg user ipAddr topic newTopic fx))
           = (if newTopic then tarrays2 else tarrays1)
       \<and> topics (snd (addNewPost E s msg user ipAddr topic newTopic fx))
           = (if newTopic then ts else topics s)"
proof (cases "blobWrite fx")
  case False
  with assms(1) show ?thesis
    by (simp add: addNewPost_def writeMessageAsSha1_def WriteBytesToFile_def Let_def)
next
  case True
  show ?thesis
  proof (cases "logWrite fx")
    case Written
    note a = assms(2) [unfolded derefTopic_def] assms(4) [unfolded assms(3) derefTopic_def]
    show ?thesis
      unfolding assms(3)
      by (simp add: addNewPost_def writeMessageAsSha1_def WriteBytesToFile_def Let_def
          appendString_def storeTopic_def derefTopic_def True Written a)
  next
    case (WriteFailed n)
    with True assms(1) show ?thesis
      by (simp add: addNewPost_def writeMessageAsSha1_def WriteBytesToFile_def Let_def
          appendString_def)
  qed
qed

lemma wfHeap_cell:
  assumes "wfHeap parrays tarrays" "validPtr tarrays p"
  shows "goodPosts parrays (Posts (tarrays ! fst p ! snd p))"
  using assms by (simp add: wfHeap_def validPtr_def list_all_length)

lemma addNewPost_wf:
  assumes "wf s" "validPtr (topicArrays s) topic"
  shows "wf (snd (addNewPost E s msg user ipAddr topic newTopic fx))
       \<and> map TopicId (topicsList (snd (addNewPost E s msg user ipAddr topic newTopic fx)))
           = map TopicId (topicsList s)
             @ (if fst (addNewPost E s msg user ipAddr topic newTopic fx) = None \<and> newTopic
                then [TopicId (derefTopic s topic)] else [])"
proof (cases "fst (addNewPost E s msg user ipAddr topic newTopic fx) = None")
  case False
  from addNewPost_failed [OF False] assms(1) False show ?thesis
    by (simp add: wf_def topicsList_def)
next
  case True
  define p where "p = \<lparr>PostId = int (len (Posts (derefTopic s topic))) + 1,
              CreatedOn = Now fx,
              MessageSha1 = copy20 (Sha1OfBytes E msg),
              UserNameInternal = remSep user,
              IpAddrInternal = remSep (ipAddrToInternal ipAddr),
              IsDeleted = False,
              Topic = Some topic\<rparr>"
  obtain ps parrays where ap:
    "append_slice (growPosts E) zeroPost (postArrays s) (Posts (derefTopic s topic)) p = (ps, parrays)"
    by fastforce
  define t' where "t' = (derefTopic s topic)\<lparr>Posts := ps\<rparr>"
  define tarrays1 where "tarrays1 = (topicArrays s)[fst topic := (topicArrays s ! fst topic)
                         [snd topic := t']]"
  obtain ts tarrays2 where at:
    "append_slice (growTopics E) zeroTopic tarrays1 (topics s)
             (tarrays1 ! fst topic ! snd topic) = (ts, tarrays2)"
    by fastforce
  note d = addNewPost_done [OF True ap [unfolded p_def] tarrays1_def [unfolded t'_def] at]
  from assms(1) have w: "wfHeap (postArrays s) (topicArrays s)"
    and gt: "goodSlice (topicArrays s) (topics s)" by (simp_all add: wf_def)
  have g: "goodPosts (postArrays s) (Posts (derefTopic s topic))"
    using wfHeap_cell [OF w assms(2)] by (simp add: derefTopic_def)
  have pid: "PostId p = int (len (Posts (derefTopic s topic))) + 1" by (simp add: p_def)
  have gps: "goodPosts parrays ps" using g pid ap by (rule goodPosts_append_new)
  have w1: "wfHeap parrays (topicArrays s)" using w g pid ap by (rule wfHeap_append_post)
  have gt': "goodPosts parrays (Posts t')" using gps by (simp add: t'_def)
  have w2: "wfHeap parrays tarrays1"
    unfolding tarrays1_def using w1 gt' by (rule wfHeap_store_topic)
  have gt1: "goodSlice tarrays1 (topics s)" using gt by (simp add: tarrays1_def)
  have x: "tarrays1 ! fst topic ! snd topic = t'"
    using assms(2) by (simp add: tarrays1_def validPtr_def)
  have ids1: "map TopicId (cells tarrays1 (topics s)) = map TopicId (cells (topicArrays s) (topics s))"
    unfolding tarrays1_def by (rule cells_update_cell_same) (simp add: t'_def derefTopic_def)
  show ?thesis
  proof (cases newTopic)
    case False
    with d w2 gt1 ids1 True show ?thesis
      by (simp add: wf_def topicsList_def)
  next
    case nt: True
    have w3: "wfHeap parrays tarrays2"
      using w2 gt1 _ at by (rule wfHeap_append_topic) (simp add: x t'_def gps)
    note n = append_slice_new [OF gt1 at]
    from nt d w3 n ids1 True x show ?thesis
      by (simp add: wf_def topicsList_def t'_def)
  qed
qed

lemma indexWhere_less: "indexWhere P xs = Some i \<Longrightarrow> i < length xs"
  by (induction xs arbitrary: i) (auto split: if_splits option.splits)

lemma topicByIdUnlocked_valid:
  assumes "wf s" "topicByIdUnlocked s tid = Some p"
  shows "validPtr (topicArrays s) p"
proof -
  from assms(2) obtain idx where i: "indexWhere (\<lambda>t. tid = TopicId t) (topicsList s) = Some idx"
      "p = (arr (topics s), idx)"
    by (auto simp: topicByIdUnlocked_def split: option.splits)
  from assms(1) have g: "goodSlice (topicArrays s) (topics s)" by (simp add: wf_def)
  from indexWhere_less [OF i(1)] length_cells [OF g] have "idx < len (topics s)"
    by (simp add: topicsList_def)
  with g i(2) show ?thesis by (auto simp: goodSlice_def validPtr_def)
qed

lemma AddPostToTopic_wf:
  assumes "wf s"
  shows "wf (snd (AddPostToTopic E s tid msg user ipAddr fx))
       \<and> topicIds (snd (AddPostToTopic E s tid msg user ipAddr fx)) = topicIds s"
proof (cases "topicByIdUnlocked s tid")
  case None
  with assms show ?thesis by (simp add: AddPostToTopic_def)
next
  case (Some p)
  from addNewPost_wf [OF assms topicByIdUnlocked_valid [OF assms Some], of E msg user ipAddr False fx]
  show ?thesis by (simp add: AddPostToTopic_def Some topicIds_def)
qed

lemma CreateNewPost_wf:
  assumes "wf s"
  shows "wf (snd (snd (CreateNewPost E s subject msg user ipAddr fx)))
       \<and> topicIds (snd (snd (CreateNewPost E s subject msg user ipAddr fx)))
           = topicIds s
             @ (if fst (snd (CreateNewPost E s subject msg user ipAddr fx)) = None
                then [if len (topics s) > 0
                      then int64 (TopicId (topicsList s ! (len (topics s) - 1)) + 1)
                      else 1]
                else [])"
proof -
  define t where "t = \<lparr>TopicId = (if len (topics s) > 0
                            then int64 (TopicId (topicsList s ! (len (topics s) - 1)) + 1)
                            else 1),
                Subject = remSep subject, Posts = Slice 0 0 0\<rparr>"
  define s1 where "s1 = s\<lparr>topicArrays := topicArrays s @ [[t]]\<rparr>"
  define r where "r = addNewPost E s1 msg user ipAddr (length (topicArrays s), 0) True fx"
  have c: "CreateNewPost E s subject msg user ipAddr fx
             = (TopicId (derefTopic (snd r) (length (topicArrays s), 0)), fst r, snd r)"
    unfolding r_def s1_def t_def by (simp only: CreateNewPost_addNewPost Let_def)
  from assms have w: "wfHeap (postArrays s) (topicArrays s)"
    and g: "goodSlice (topicArrays s) (topics s)" by (simp_all add: wf_def)
  have "goodPosts (postArrays s) (Posts t)"
    by (simp add: t_def goodPosts_def goodSlice_def cells_def)
  with w have w1: "wfHeap (postArrays s1) (topicArrays s1)"
    by (simp add: wfHeap_def s1_def)
  from g have g1: "goodSlice (topicArrays s1) (topics s1)"
    by (auto simp: goodSlice_def s1_def nth_append)
  have v: "validPtr (topicArrays s1) (length (topicArrays s), 0)"
    by (simp add: validPtr_def s1_def)
  from g have l: "topicsList s1 = topicsList s"
    by (auto simp: topicsList_def cells_def goodSlice_def s1_def nth_append)
  have dt: "TopicId (derefTopic s1 (length (topicArrays s), 0)) = TopicId t"
    by (simp add: derefTopic_def s1_def)
  from w1 g1 have "wf s1" by (simp add: wf_def)
  from addNewPost_wf [OF this v, of E msg user ipAddr True fx] l dt
  show ?thesis
    by (simp add: c r_def topicIds_def t_def)
qed

lemma storePost_wf:
  assumes "wf s"
  shows "wf (storePost s p ((derefPost s p)\<lparr>IsDeleted := v\<rparr>))
       \<and> topicIds (storePost s p ((derefPost s p)\<lparr>IsDeleted := v\<rparr>)) = topicIds s"
  using assms wfHeap_set_flag [of "postArrays s" "topicArrays s" "fst p" "snd p" v]
  by (simp add: wf_def storePost_def derefPost_def topicIds_def topicsList_def)

lemma appendString_wf:
  assumes "wf s"
  shows "wf (snd (appendString s str w))
       \<and> topicIds (snd (appendString s str w)) = topicIds s"
  using assms by (cases w) (simp_all add: appendString_def topicIds_def topicsList_def)

lemma DeletePost_wf:
  assumes "wf s" "DeletePost s tid pid w = Returns (err, s')"
  shows "wf s' \<and> topicIds s' = topicIds s"
proof (cases "findPost s tid pid")
  case (Panics m)
  with assms(2) show ?thesis by (simp add: DeletePost_def)
next
  case (Returns r)
  show ?thesis
  proof (cases r)
    case (Inl e)
    with Returns assms show ?thesis by (simp add: DeletePost_def)
  next
    case (Inr p)
    show ?thesis
    proof (cases "IsDeleted (derefPost s p)")
      case True
      with Returns Inr assms show ?thesis by (simp add: DeletePost_def)
    next
      case False
      define a where "a = appendString s (''D'' @ itoa tid @ ''|'' @ itoa pid @ [nl]) w"
      note aw = appendString_wf [OF assms(1), of "''D'' @ itoa tid @ ''|'' @ itoa pid @ [nl]" w,
          folded a_def]
      show ?thesis
      proof (cases "fst a")
        case None
        with Returns Inr False assms(2) have "s' = storePost (snd a) p ((derefPost (snd a) p)\<lparr>IsDeleted := True\<rparr>)"
          by (simp add: DeletePost_def a_def split_beta split: option.splits)
        with aw storePost_wf [of "snd a" p True] show ?thesis by simp
      next
        case (Some e)
        with Returns Inr False assms(2) have "s' = snd a"
          by (simp add: DeletePost_def a_def split_beta split: option.splits)
        with aw show ?thesis by simp
      qed
    qed
  qed
qed

lemma UndeletePost_wf:
  assumes "wf s" "UndeletePost s tid pid w = Returns (err, s')"
  shows "wf s' \<and> topicIds s' = topicIds s"
proof (cases "findPost s tid pid")
  case (Panics m)
  with assms(2) show ?thesis by (simp add: UndeletePost_def)
next
  case (Returns r)
  show ?thesis
  proof (cases r)
    case (Inl e)
    with Returns assms show ?thesis by (simp add: UndeletePost_def)
  next
    case (Inr p)
    show ?thesis
    proof (cases "IsDeleted (derefPost s p)")
      case False
      with Returns Inr assms show ?thesis by (simp add: UndeletePost_def)
    next
      case True
      define a where "a = appendString s (''U'' @ itoa tid @ ''|'' @ itoa pid @ [nl]) w"
      note aw = appendString_wf [OF assms(1), of "''U'' @ itoa tid @ ''|'' @ itoa pid @ [nl]" w,
          folded a_def]
      show ?thesis
      proof (cases "fst a")
        case None
        with Returns Inr True assms(2) have "s' = storePost (snd a) p ((derefPost (snd a) p)\<lparr>IsDeleted := False\<rparr>)"
          by (simp add: UndeletePost_def a_def split_beta split: option.splits)
        with aw storePost_wf [of "snd a" p False] show ?thesis by simp
      next
        case (Some e)
        with Returns Inr True assms(2) have "s' = snd a"
          by (simp add: UndeletePost_def a_def split_beta split: option.splits)
        with aw show ?thesis by simp
      qed
    qed
  qed
qed

subsection \<open>Sequences of calls\<close>

lemma step_wf:
  assumes "wf s" "step E s c = Returns (err, s')"
  shows "wf s'"
proof (cases c)
  case (CallCreateNewPost subject msg user ipAddr fx)
  with assms(2) CreateNewPost_wf [OF assms(1), of E subject msg user ipAddr fx] show ?thesis
    by auto
next
  case (CallAddPostToTopic tid msg user ipAddr fx)
  with assms(2) AddPostToTopic_wf [OF assms(1), of E tid msg user ipAddr fx] show ?thesis
    by auto
next
  case (CallDeletePost tid pid w)
  with assms(2) DeletePost_wf [OF assms(1)] show ?thesis by auto
next
  case (CallUndeletePost tid pid w)
  with assms(2) UndeletePost_wf [OF assms(1)] show ?thesis by auto
next
  case (CallBlockIp ipAddr w)
  with assms(2) appendString_wf [OF assms(1)] show ?thesis
    by (auto simp: BlockIp_def blockIp_def)
next
  case (CallUnblockIp ipAddr w)
  with assms(2) appendString_wf [OF assms(1)] show ?thesis
    by (auto simp: UnblockIp_def unblockIp_def)
qed

lemma run_wf:
  assumes "wf s" "run E s cs = Returns (errs, s')"
  shows "wf s'"
  using assms
proof (induction cs arbitrary: s errs)
  case Nil
  then show ?case by simp
next
  case (Cons c cs)
  from Cons.prems(2) obtain err s1 errs1 where
    s: "step E s c = Returns (err, s1)" and r: "run E s1 cs = Returns (errs1, s')"
    by (auto split: outcome.splits)
  from step_wf [OF Cons.prems(1) s] r show ?case by (rule Cons.IH)
qed

lemma wf_postIds:
  assumes "wf s"
  shows "list_all (\<lambda>t. postIds s t = [1..int (len (Posts t))]) (topicsList s)"
proof -
  from assms have w: "wfHeap (postArrays s) (topicArrays s)"
    and g: "goodSlice (topicArrays s) (topics s)" by (simp_all add: wf_def)
  have "postIds s t = [1..int (len (Posts t))]" if "t \<in> set (topicsList s)" for t
  proof -
    from cells_subset [OF g] that obtain a where "a \<in> set (topicArrays s)" "t \<in> set a"
      by (auto simp: topicsList_def)
    with w have "goodPosts (postArrays s) (Posts t)" by (auto simp: wfHeap_def list_all_iff)
    then show ?thesis by (simp add: goodPosts_def postIds_def postsList_def)
  qed
  then show ?thesis by (simp add: list_all_iff)
qed

text \<open>Topic ids count up from 1, as 64-bit integers.\<close>

lemma ids_extend:
  assumes "ids = map int64 [1..int (length ids)]"
  shows "ids @ [if length ids > 0 then int64 (ids ! (length ids - 1) + 1) else 1]
           = map int64 [1..int (length (ids @ [x]))]"
proof -
  define n where "n = length ids"
  have u: "[1..int (Suc n)] = [1..int n] @ [int n + 1]" by (rule upto_1_Suc)
  have k: "(if n > 0 then int64 (ids ! (n - 1) + 1) else 1) = int64 (int n + 1)"
  proof (cases "n > 0")
    case True
    have "ids ! (n - 1) = map int64 [1..int n] ! (n - 1)"
      unfolding n_def by (subst assms) simp
    also have "\<dots> = int64 ([1..int n] ! (n - 1))"
      using True by (intro nth_map) simp
    also have "[1..int n] ! (n - 1) = int (n - 1) + 1" using True by (intro upto_1_nth) simp
    finally have "ids ! (n - 1) = int64 (int n)" using True by (simp add: of_nat_diff)
    with True show ?thesis by (simp add: int64_succ)
  next
    case False
    then show ?thesis by (simp add: int64_def)
  qed
  have m: "map int64 [1..int n] = ids" unfolding n_def by (rule assms [symmetric])
  have "length (ids @ [x]) = Suc n" by (simp add: n_def)
  then have "map int64 [1..int (length (ids @ [x]))] = map int64 ([1..int n] @ [int n + 1])"
    by (simp only: u)
  also have "\<dots> = map int64 [1..int n] @ [int64 (int n + 1)]" by simp
  also have "\<dots> = ids @ [if n > 0 then int64 (ids ! (n - 1) + 1) else 1]"
    by (simp only: m k)
  finally show ?thesis by (simp only: n_def)
qed

lemma topicIds_length: "wf s \<Longrightarrow> length (topicIds s) = len (topics s)"
  by (simp add: topicIds_def topicsList_def wf_def length_cells)

lemma topicIds_last:
  assumes "wf s" "len (topics s) > 0"
  shows "TopicId (topicsList s ! (len (topics s) - 1)) = topicIds s ! (length (topicIds s) - 1)"
  using assms topicIds_length [OF assms(1)] by (simp add: topicIds_def)

lemma step_seq:
  assumes "wf s" "topicIds s = map int64 [1..int (length (topicIds s))]"
      and "step E s c = Returns (err, s')"
  shows "topicIds s' = map int64 [1..int (length (topicIds s'))]"
proof (cases c)
  case (CallCreateNewPost subject msg user ipAddr fx)
  note w = CreateNewPost_wf [OF assms(1), of E subject msg user ipAddr fx]
  show ?thesis
  proof (cases "fst (snd (CreateNewPost E s subject msg user ipAddr fx)) = None")
    case True
    have "(if len (topics s) > 0
           then int64 (TopicId (topicsList s ! (len (topics s) - 1)) + 1) else 1)
          = (if length (topicIds s) > 0
             then int64 (topicIds s ! (length (topicIds s) - 1) + 1) else 1)"
      using topicIds_last [OF assms(1)] topicIds_length [OF assms(1)] by simp
    with w True have "topicIds s' = topicIds s
        @ [if length (topicIds s) > 0
             then int64 (topicIds s ! (length (topicIds s) - 1) + 1) else 1]"
      using assms(3) CallCreateNewPost by auto
    with ids_extend [OF assms(2)] show ?thesis by (simp add: add.commute)
  next
    case False
    with w assms(2,3) CallCreateNewPost show ?thesis by auto
  qed
next
  case (CallAddPostToTopic tid msg user ipAddr fx)
  with assms AddPostToTopic_wf [OF assms(1), of E tid msg user ipAddr fx] show ?thesis
    by auto
next
  case (CallDeletePost tid pid w)
  with assms DeletePost_wf [OF assms(1)] show ?thesis by auto
next
  case (CallUndeletePost tid pid w)
  with assms UndeletePost_wf [OF assms(1)] show ?thesis by auto
next
  case (CallBlockIp ipAddr w)
  with assms appendString_wf [OF assms(1)] show ?thesis
    by (auto simp: BlockIp_def blockIp_def)
next
  case (CallUnblockIp ipAddr w)
  with assms appendString_wf [OF assms(1)] show ?thesis
    by (auto simp: UnblockIp_def unblockIp_def)
qed

lemma run_seq:
  assumes "wf s" "topicIds s = map int64 [1..int (length (topicIds s))]"
      and "run E s cs = Returns (errs, s')"
  shows "topicIds s' = map int64 [1..int (length (topicIds s'))]"
  using assms
proof (induction cs arbitrary: s errs)
  case Nil
  then show ?case by simp
next
  case (Cons c cs)
  from Cons.prems(3) obtain err s1 errs1 where
    s: "step E s c = Returns (err, s1)" and r: "run E s1 cs = Returns (errs1, s')"
    by (auto split: outcome.splits)
  from step_wf [OF Cons.prems(1) s] step_seq [OF Cons.prems(1,2) s] r
  show ?case by (rule Cons.IH)
qed

lemma ids_small:
  assumes "ids = map int64 [1..int (length ids)]" "length ids < 2 ^ 63"
  shows "ids = [1..int (length ids)]"
proof -
  have "int64 k = k" if "k \<in> set [1..int (length ids)]" for k
  proof -
    from that have "1 \<le> k" "k \<le> int (length ids)" by simp_all
    moreover have "int (length ids) < 2 ^ 63"
      using assms(2) by (metis of_nat_less_iff of_nat_numeral of_nat_power)
    ultimately show ?thesis by (intro int64_id) simp_all
  qed
  then have "map int64 [1..int (length ids)] = [1..int (length ids)]"
    by (intro map_idI)
  with assms(1) show ?thesis by simp
qed


lemma ids_wrap:
  assumes "ids = [1..int (length ids)]" "length ids < 2 ^ 63"
  shows "ids = map int64 [1..int (length ids)]"
proof -
  have "int64 k = k" if "k \<in> set [1..int (length ids)]" for k
  proof -
    from that have "1 \<le> k" "k \<le> int (length ids)" by simp_all
    moreover have "int (length ids) < 2 ^ 63"
      using assms(2) by (metis of_nat_less_iff of_nat_numeral of_nat_power)
    ultimately show ?thesis by (intro int64_id) simp_all
  qed
  then have "map int64 [1..int (length ids)] = [1..int (length ids)]"
    by (intro map_idI)
  with assms(1) show ?thesis by simp
qed

lemma step_len:
  assumes "wf s" "step E s c = Returns (err, s')"
  shows "length (topicIds s) \<le> length (topicIds s')"
proof (cases c)
  case (CallCreateNewPost subject msg user ipAddr fx)
  with assms(2) CreateNewPost_wf [OF assms(1), of E subject msg user ipAddr fx] show ?thesis
    by auto
next
  case (CallAddPostToTopic tid msg user ipAddr fx)
  with assms(2) AddPostToTopic_wf [OF assms(1), of E tid msg user ipAddr fx] show ?thesis
    by auto
next
  case (CallDeletePost tid pid w)
  with assms(2) DeletePost_wf [OF assms(1)] show ?thesis by auto
next
  case (CallUndeletePost tid pid w)
  with assms(2) UndeletePost_wf [OF assms(1)] show ?thesis by auto
next
  case (CallBlockIp ipAddr w)
  with assms(2) appendString_wf [OF assms(1)] show ?thesis
    by (auto simp: BlockIp_def blockIp_def)
next
  case (CallUnblockIp ipAddr w)
  with assms(2) appendString_wf [OF assms(1)] show ?thesis
    by (auto simp: UnblockIp_def unblockIp_def)
qed

lemma run_len:
  assumes "wf s" "run E s cs = Returns (errs, s')"
  shows "length (topicIds s) \<le> length (topicIds s')"
  using assms
proof (induction cs arbitrary: s errs)
  case Nil
  then show ?case by simp
next
  case (Cons c cs)
  from Cons.prems(2) obtain err s1 errs1 where
    s: "step E s c = Returns (err, s1)" and r: "run E s1 cs = Returns (errs1, s')"
    by (auto split: outcome.splits)
  from Cons.IH [OF step_wf [OF Cons.prems(1) s] r] step_len [OF Cons.prems(1) s]
  show ?case by simp
qed

subsection \<open>The replay\<close>

lemma parseTopic_Posts: "parseTopic line = Returns t \<Longrightarrow> Posts t = Slice 0 0 0"
  by (auto simp: parseTopic_def Let_def split: if_splits prod.splits)

lemma parsePost_Returns:
  assumes "parsePost s line m = Returns (post, out)"
  shows "\<exists>tid t. m tid = Some t \<and> Topic post = Some t
           \<and> PostId post = int (len (Posts (derefTopic s t))) + 1"
  using assms
  by (auto simp: parsePost_def Let_def split: if_splits prod.splits option.splits)

lemma replayInv_T:
  assumes "replayInv s l" "parseTopic line = Returns t"
      and "append_slice (growTopics E) zeroTopic (topicArrays s) (topics_var l) t = (ts, tarrays)"
  shows "replayInv (s\<lparr>topicArrays := tarrays\<rparr>)
           (l\<lparr>topics_var := ts,
              topicIdToTopic := (topicIdToTopic l)(TopicId t \<mapsto> (arr ts, len ts - 1))\<rparr>)"
proof -
  from assms(1) have w: "wfHeap (postArrays s) (topicArrays s)"
    and g: "goodSlice (topicArrays s) (topics_var l)"
    and v: "\<And>k p. topicIdToTopic l k = Some p \<Longrightarrow> validPtr (topicArrays s) p"
    by (auto simp: replayInv_def)
  have "goodPosts (postArrays s) (Posts t)"
    using parseTopic_Posts [OF assms(2)] by (simp add: goodPosts_def goodSlice_def cells_def)
  with w g have w': "wfHeap (postArrays s) tarrays"
    using assms(3) by (rule wfHeap_append_topic)
  note n = append_slice_new [OF g assms(3)]
  then have "validPtr tarrays (arr ts, len ts - 1)"
    by (auto simp: goodSlice_def validPtr_def)
  moreover have "validPtr tarrays p" if "topicIdToTopic l k = Some p" for k p
    using v [OF that] assms(3) by (rule append_slice_validPtr)
  ultimately show ?thesis using w' n by (auto simp: replayInv_def)
qed

lemma replayInv_P:
  assumes "replayInv s l" "parsePost s line (topicIdToTopic l) = Returns (post, out)"
      and "Topic post = Some t"
      and "append_slice (growPosts E) zeroPost (postArrays s) (Posts (derefTopic s t)) post
             = (ps, parrays)"
  shows "replayInv
           ((storeTopic (s\<lparr>postArrays := parrays, printed := printed s @ out\<rparr>) t
               ((derefTopic s t)\<lparr>Posts := ps\<rparr>))\<lparr>posts := x\<rparr>) l"
proof -
  from assms(1) have w: "wfHeap (postArrays s) (topicArrays s)"
    and g: "goodSlice (topicArrays s) (topics_var l)"
    and v: "\<And>k p. topicIdToTopic l k = Some p \<Longrightarrow> validPtr (topicArrays s) p"
    by (auto simp: replayInv_def)
  from parsePost_Returns [OF assms(2)] assms(3) obtain tid where
    m: "topicIdToTopic l tid = Some t"
    and pid: "PostId post = int (len (Posts (derefTopic s t))) + 1" by auto
  have gp: "goodPosts (postArrays s) (Posts (derefTopic s t))"
    using wfHeap_cell [OF w v [OF m]] by (simp add: derefTopic_def)
  have gps: "goodPosts parrays ps" using gp pid assms(4) by (rule goodPosts_append_new)
  have w1: "wfHeap parrays (topicArrays s)" using w gp pid assms(4) by (rule wfHeap_append_post)
  have "goodPosts parrays (Posts ((derefTopic s t)\<lparr>Posts := ps\<rparr>))" using gps by simp
  with w1 have "wfHeap parrays ((topicArrays s)[fst t := (topicArrays s ! fst t)
                         [snd t := (derefTopic s t)\<lparr>Posts := ps\<rparr>]])"
    by (rule wfHeap_store_topic)
  with g v show ?thesis by (auto simp: replayInv_def storeTopic_def)
qed

lemma replayInv_flag:
  assumes "replayInv s l"
  shows "replayInv (storePost s p ((derefPost s p)\<lparr>IsDeleted := v\<rparr>)) l"
  using assms wfHeap_set_flag [of "postArrays s" "topicArrays s" "fst p" "snd p" v]
  by (simp add: replayInv_def storePost_def derefPost_def)

lemma parseLine_inv:
  assumes "replayInv s l" "parseLine E s l line = Returns (s', l')"
  shows "replayInv s' l'"
proof -
  from assms(2) have ne: "line \<noteq> []" by (auto simp: parseLine_def)
  consider (T) "hd line = CHR ''T''" | (P) "hd line = CHR ''P''" | (D) "hd line = CHR ''D''"
    | (U) "hd line = CHR ''U''" | (B) "hd line = CHR ''B''"
    | (other) "hd line \<noteq> CHR ''T''" "hd line \<noteq> CHR ''P''" "hd line \<noteq> CHR ''D''"
        "hd line \<noteq> CHR ''U''" "hd line \<noteq> CHR ''B''"
    by blast
  then show ?thesis
  proof cases
    case T
    with assms(2) ne obtain t where t: "parseTopic line = Returns t"
      by (auto simp: parseLine_def split: outcome.splits)
    obtain ts tarrays where a:
      "append_slice (growTopics E) zeroTopic (topicArrays s) (topics_var l) t = (ts, tarrays)"
      by fastforce
    from assms(2) ne T t a have "s' = s\<lparr>topicArrays := tarrays\<rparr>"
      "l' = l\<lparr>topics_var := ts,
              topicIdToTopic := (topicIdToTopic l)(TopicId t \<mapsto> (arr ts, len ts - 1))\<rparr>"
      by (simp_all add: parseLine_def)
    with replayInv_T [OF assms(1) t a] show ?thesis by simp
  next
    case P
    with assms(2) ne obtain post out t where p:
      "parsePost s line (topicIdToTopic l) = Returns (post, out)" "Topic post = Some t"
      by (auto simp: parseLine_def split: outcome.splits option.splits)
    obtain ps parrays where a:
      "append_slice (growPosts E) zeroPost (postArrays s) (Posts (derefTopic s t)) post
             = (ps, parrays)"
      by fastforce
    from assms(2) ne P p a have "l' = l"
      "s' = (storeTopic (s\<lparr>postArrays := parrays, printed := printed s @ out\<rparr>) t
               ((derefTopic s t)\<lparr>Posts := ps\<rparr>))
              \<lparr>posts := posts (storeTopic (s\<lparr>postArrays := parrays, printed := printed s @ out\<rparr>) t
               ((derefTopic s t)\<lparr>Posts := ps\<rparr>)) @ [(arr ps, len ps - 1)]\<rparr>"
      by (simp_all add: parseLine_def Let_def)
    with replayInv_P [OF assms(1) p a] show ?thesis by simp
  next
    case D
    with assms(2) ne obtain p where
      "s' = storePost s p ((derefPost s p)\<lparr>IsDeleted := True\<rparr>)" "l' = l"
      by (auto simp: parseLine_def split: outcome.splits if_splits)
    with replayInv_flag [OF assms(1)] show ?thesis by simp
  next
    case U
    with assms(2) ne obtain p where
      "s' = storePost s p ((derefPost s p)\<lparr>IsDeleted := False\<rparr>)" "l' = l"
      by (auto simp: parseLine_def split: outcome.splits if_splits)
    with replayInv_flag [OF assms(1)] show ?thesis by simp
  next
    case B
    with assms show ?thesis by (auto simp: parseLine_def split: if_splits)
  next
    case other
    with assms(2) ne show ?thesis by (simp add: parseLine_def)
  qed
qed

declare parseTopics_loop.simps [simp del]

lemma parseTopics_loop_inv:
  "replayInv s l \<Longrightarrow> parseTopics_loop E s l d = Returns (s', l') \<Longrightarrow> replayInv s' l'"
proof (induction E s l d rule: parseTopics_loop.induct)
  case (1 E s l d)
  show ?case
  proof (cases "d = []")
    case True
    with 1(2,3) show ?thesis by (simp add: parseTopics_loop.simps [of E s l "[]"])
  next
    case False
    with 1(3) obtain idx s1 l1 where
      i: "IndexByte d nl = Some idx" and
      p: "parseLine E s l (take idx d) = Returns (s1, l1)" and
      r: "parseTopics_loop E s1 l1 (drop (idx + 1) d) = Returns (s', l')"
      by (auto simp: parseTopics_loop.simps [of E s l d] split: option.splits outcome.splits)
    from parseLine_inv [OF 1(2) p] have "replayInv s1 l1" .
    with 1(1) [OF False i p refl] r show ?thesis by simp
  qed
qed

lemma NewStore_wf:
  assumes "NewStore E dir name file files ops = Returns (Inr s)"
  shows "wf s"
proof -
  define store where "store = \<lparr>postArrays = [], topicArrays = [], dataDir = dir,
      forumName = name, topics = Slice 0 0 0, posts = [], dataFile = [], blobs = files,
      printed = []\<rparr>"
  have v: "wf (verifyTopics x) = wf x" for x by (simp add: verifyTopics_def)
  have e: "wf store" by (simp add: store_def wf_def wfHeap_def goodSlice_def)
  show ?thesis
  proof (cases "file")
    case None
    with assms have "s = verifyTopics store"
      by (auto simp: NewStore_def store_def split: if_splits)
    with e v show ?thesis by simp
  next
    case (Some data)
    with assms obtain ts s1 where p: "parseTopics E store data = Returns (ts, s1)"
      and s: "s = verifyTopics (s1\<lparr>topics := ts, dataFile := data\<rparr>)"
      by (auto simp: NewStore_def store_def split: if_splits outcome.splits)
    from p obtain l where lp: "parseTopics_loop E store
        \<lparr>topics_var = Slice 0 0 0, topicIdToTopic = Map.empty\<rparr> data = Returns (s1, l)"
      and ts: "ts = topics_var l"
      by (auto simp: parseTopics_def split: outcome.splits)
    have "replayInv store \<lparr>topics_var = Slice 0 0 0, topicIdToTopic = Map.empty\<rparr>"
      by (simp add: replayInv_def store_def wfHeap_def goodSlice_def)
    from parseTopics_loop_inv [OF this lp] have "replayInv s1 l" .
    then have "wf (s1\<lparr>topics := ts, dataFile := data\<rparr>)"
      by (simp add: replayInv_def wf_def ts)
    with s v show ?thesis by simp
  qed
qed

lemma NewStore_empty:
  assumes "NewStore E dir name None files ops = Returns (Inr s)"
  shows "topicIds s = []"
  using assms
  by (auto simp: NewStore_def verifyTopics_def topicIds_def topicsList_def cells_def
      split: if_splits)

section \<open>Ids are positions\<close>

lemma parsePost_fields:
  assumes "Split (tl line) (CHR ''|'') = [f0, f1, f2, f3, f4, f5]"
      and "Atoi f0 = (topicId, True)" "Atoi f1 = (pid, True)" "Atoi f2 = (secs, True)"
      and "base64_DecodeString (f3 @ ''='') = Some sha" "length sha = 20"
      and "m topicId = Some t"
  shows "parsePost s line m =
           Returns
             (\<lparr>PostId = int (len (Posts (derefTopic s t))) + 1,
               CreatedOn = Time secs 0,
               MessageSha1 = copy20 sha,
               UserNameInternal = f5,
               IpAddrInternal = f4,
               IsDeleted = False,
               Topic = Some t\<rparr>,
              if pid \<noteq> int (len (Posts (derefTopic s t))) + 1
              then [UnexpectedPostId line topicId pid (int (len (Posts (derefTopic s t))) + 1)
                      (Subject (derefTopic s t))]
              else [])"
  using assms by (simp add: parsePost_def Let_def)

lemma CreateNewPost_next_id:
  assumes "wf s" "fst (snd (CreateNewPost E s subject msg user ipAddr fx)) = None"
  shows "topicIds (snd (snd (CreateNewPost E s subject msg user ipAddr fx)))
           = topicIds s @ [if topicIds s = [] then 1 else int64 (last (topicIds s) + 1)]"
proof -
  have "(if len (topics s) > 0
         then int64 (TopicId (topicsList s ! (len (topics s) - 1)) + 1) else 1)
        = (if topicIds s = [] then 1 else int64 (last (topicIds s) + 1))"
    using topicIds_last [OF assms(1)] topicIds_length [OF assms(1)]
    by (auto simp: last_conv_nth)
  with CreateNewPost_wf [OF assms(1), of E subject msg user ipAddr fx] assms(2)
  show ?thesis by simp
qed

text \<open>
  The replay does not check topic ids. A log whose only topic record holds the id 5
  is replayed to a store whose only topic has the id 5. And a log the store wrote
  itself can hold the same topic record twice: when the write of CreateNewPost fails
  after the nine bytes of the topic record, the memory is unchanged, the next
  CreateNewPost writes topic 1 again, and the replay returns two topics with the id 1.
\<close>

theorem replay_takes_topic_ids_from_log:
  "reopened_postIdsByTopic env0 (emptyStore\<lparr>dataFile := corruptLog\<rparr>)
     = Returns (Inr [(5, [1])])
   \<and> errorsOf emptyStore failedThenCreated = Returns [Some WriteStringError, None]
   \<and> dataFile (after emptyStore failedThenCreated)
       = ''T1|Hello\<newline>T1|Hello\<newline>P1|1|1148874103|AAAAAAAAAAAAAAAAAAAAAAAAAAA|7f000001|alice\<newline>''
   \<and> reopened_postIdsByTopic env0 (after emptyStore failedThenCreated)
       = Returns (Inr [(1, []), (1, [1])])"
  by code_simp

text \<open>
  C6, as amended. The store that NewStore returns when there is no log file has no
  topics. In every state reached by any sequence of mutation calls from a store that
  NewStore returned with the topic ids 1, ..., K in order (the empty store, or one
  replayed from a log), the topic ids are exactly 1, ..., N in order (N the number
  of topics, below 2^63). In every state reached from a store that NewStore returns,
  for no log file or for any log file it accepts, by any sequence of mutation calls,
  the post ids of every topic are exactly 1, ..., M in order (M the number of its
  posts), and a CreateNewPost that succeeds there appends a topic whose id is the
  last topic's id plus 1 (as a 64-bit integer), or 1 when there is no topic. For a
  P record whose six fields parse and whose topic is known, parsePost returns a post
  whose id is the number of posts of that topic plus 1, whatever post id the record
  holds; when the two differ it does not panic but prints the message about the
  unexpected post id.
\<close>

theorem ids_by_position:
  "(NewStore E dir name None files ops = Returns (Inr init)
      \<longrightarrow> topicIds init = [1..int (len (topics init))])
   \<and> (NewStore E dir name logFile files ops = Returns (Inr init)
      \<and> topicIds init = [1..int (len (topics init))]
      \<and> run E init calls = Returns (errs, s) \<and> len (topics s) < 2 ^ 63
      \<longrightarrow> topicIds s = [1..int (len (topics s))])
   \<and> (NewStore E dir name logFile files ops = Returns (Inr init)
      \<and> run E init calls = Returns (errs, s)
      \<longrightarrow> list_all (\<lambda>t. postIds s t = [1..int (len (Posts t))]) (topicsList s)
          \<and> (fst (snd (CreateNewPost E s subject msg user ipAddr fx)) = None
               \<longrightarrow> topicIds (snd (snd (CreateNewPost E s subject msg user ipAddr fx)))
                     = topicIds s
                       @ [if topicIds s = [] then 1 else int64 (last (topicIds s) + 1)]))
   \<and> (Split (tl line) (CHR ''|'') = [f0, f1, f2, f3, f4, f5]
      \<and> Atoi f0 = (topicId, True) \<and> Atoi f1 = (pid, True) \<and> Atoi f2 = (secs, True)
      \<and> base64_DecodeString (f3 @ ''='') = Some sha \<and> length sha = 20
      \<and> m topicId = Some t
      \<longrightarrow> parsePost st line m =
           Returns
             (\<lparr>PostId = int (len (Posts (derefTopic st t))) + 1,
               CreatedOn = Time secs 0,
               MessageSha1 = copy20 sha,
               UserNameInternal = f5,
               IpAddrInternal = f4,
               IsDeleted = False,
               Topic = Some t\<rparr>,
              if pid \<noteq> int (len (Posts (derefTopic st t))) + 1
              then [UnexpectedPostId line topicId pid (int (len (Posts (derefTopic st t))) + 1)
                      (Subject (derefTopic st t))]
              else []))"
proof (intro conjI impI)
  assume a: "NewStore E dir name None files ops = Returns (Inr init)"
  then have "wf init" by (rule NewStore_wf)
  from topicIds_length [OF this] NewStore_empty [OF a]
  show "topicIds init = [1..int (len (topics init))]" by simp
next
  assume a: "NewStore E dir name logFile files ops = Returns (Inr init)
      \<and> topicIds init = [1..int (len (topics init))]
      \<and> run E init calls = Returns (errs, s) \<and> len (topics s) < 2 ^ 63"
  then have w0: "wf init" using NewStore_wf by blast
  from a have r: "run E init calls = Returns (errs, s)" by simp
  from run_wf [OF w0 r] have w: "wf s" .
  from run_len [OF w0 r] a w have b: "length (topicIds init) < 2 ^ 63"
    by (simp add: topicIds_length)
  from a w0 have "topicIds init = [1..int (length (topicIds init))]"
    by (simp add: topicIds_length)
  from ids_wrap [OF this b]
  have e: "topicIds init = map int64 [1..int (length (topicIds init))]" .
  from run_seq [OF w0 e r] have "topicIds s = map int64 [1..int (length (topicIds s))]" .
  moreover from a w have "length (topicIds s) < 2 ^ 63" by (simp add: topicIds_length)
  ultimately have "topicIds s = [1..int (length (topicIds s))]" by (rule ids_small)
  with w show "topicIds s = [1..int (len (topics s))]" by (simp add: topicIds_length)
next
  assume a: "NewStore E dir name logFile files ops = Returns (Inr init)
      \<and> run E init calls = Returns (errs, s)"
  then have "wf init" using NewStore_wf by blast
  with a have "wf s" using run_wf by blast
  then show "list_all (\<lambda>t. postIds s t = [1..int (len (Posts t))]) (topicsList s)"
    by (rule wf_postIds)
next
  assume a: "NewStore E dir name logFile files ops = Returns (Inr init)
      \<and> run E init calls = Returns (errs, s)"
    and c: "fst (snd (CreateNewPost E s subject msg user ipAddr fx)) = None"
  from a have "wf init" using NewStore_wf by blast
  with a have "wf s" using run_wf by blast
  from CreateNewPost_next_id [OF this c]
  show "topicIds (snd (snd (CreateNewPost E s subject msg user ipAddr fx)))
          = topicIds s @ [if topicIds s = [] then 1 else int64 (last (topicIds s) + 1)]" .
next
  assume "Split (tl line) (CHR ''|'') = [f0, f1, f2, f3, f4, f5]
      \<and> Atoi f0 = (topicId, True) \<and> Atoi f1 = (pid, True) \<and> Atoi f2 = (secs, True)
      \<and> base64_DecodeString (f3 @ ''='') = Some sha \<and> length sha = 20
      \<and> m topicId = Some t"
  then have h: "Split (tl line) (CHR ''|'') = [f0, f1, f2, f3, f4, f5]"
    "Atoi f0 = (topicId, True)" "Atoi f1 = (pid, True)" "Atoi f2 = (secs, True)"
    "base64_DecodeString (f3 @ ''='') = Some sha" "length sha = 20" "m topicId = Some t"
    by blast+
  show "parsePost st line m =
           Returns
             (\<lparr>PostId = int (len (Posts (derefTopic st t))) + 1,
               CreatedOn = Time secs 0,
               MessageSha1 = copy20 sha,
               UserNameInternal = f5,
               IpAddrInternal = f4,
               IsDeleted = False,
               Topic = Some t\<rparr>,
              if pid \<noteq> int (len (Posts (derefTopic st t))) + 1
              then [UnexpectedPostId line topicId pid (int (len (Posts (derefTopic st t))) + 1)
                      (Subject (derefTopic st t))]
              else [])"
    using h by (rule parsePost_fields)
qed


theorem ids_by_position_witness:
  "topicIds emptyStore = []
   \<and> topicIds (after (opened (dataFile (after emptyStore oneTopic)))
        [CallCreateNewPost ''Second'' ''more'' ''bob'' ''127.0.0.1'' good]) = [1, 2]
   \<and> list_all
        (\<lambda>t. postIds (after (opened corruptLog)
                 [CallAddPostToTopic 5 ''more'' ''bob'' ''127.0.0.1'' good]) t
              = [1..int (len (Posts t))])
        (topicsList (after (opened corruptLog)
           [CallAddPostToTopic 5 ''more'' ''bob'' ''127.0.0.1'' good]))
   \<and> postIdsByTopic (after (opened corruptLog)
        [CallAddPostToTopic 5 ''more'' ''bob'' ''127.0.0.1'' good]) = [(5, [1, 2])]
   \<and> topicIds (snd (snd (CreateNewPost env0
        (after (opened corruptLog) [CallAddPostToTopic 5 ''more'' ''bob'' ''127.0.0.1'' good])
        ''Next'' ''m'' ''bob'' ''127.0.0.1'' good))) = [5, 6]
   \<and> parsePost (opened ''T5|Hello\<newline>'')
        ''P5|7|1148874103|AAAAAAAAAAAAAAAAAAAAAAAAAAA|7f000001|alice''
        (Map.empty(5 \<mapsto> (0, 0)))
       = Returns
           (\<lparr>PostId = 1, CreatedOn = Time 1148874103 0, MessageSha1 = replicate 20 0,
             UserNameInternal = ''alice'', IpAddrInternal = ''7f000001'', IsDeleted = False,
             Topic = Some (0, 0)\<rparr>,
            [UnexpectedPostId
               ''P5|7|1148874103|AAAAAAAAAAAAAAAAAAAAAAAAAAA|7f000001|alice'' 5 7 1 ''Hello''])"
proof -
  let ?o = "opened (dataFile (after emptyStore oneTopic))"
  let ?a = "after ?o [CallCreateNewPost ''Second'' ''more'' ''bob'' ''127.0.0.1'' good]"
  let ?w = "after (opened corruptLog) [CallAddPostToTopic 5 ''more'' ''bob'' ''127.0.0.1'' good]"
  let ?line = "''P5|7|1148874103|AAAAAAAAAAAAAAAAAAAAAAAAAAA|7f000001|alice''"
  let ?st = "opened ''T5|Hello\<newline>''"
  have n: "NewStore env0 ''data'' ''forum'' None [] allOk = Returns (Inr emptyStore)"
    by code_simp
  have e: "len (topics emptyStore) = 0" by code_simp
  have 0: "topicIds emptyStore = []"
    using ids_by_position [where E = env0 and dir = "''data''" and name = "''forum''"
        and files = "[]" and ops = allOk and init = emptyStore] n e
    by simp
  have o: "NewStore env0 ''data'' ''forum'' (Some (dataFile (after emptyStore oneTopic))) []
             allOk = Returns (Inr ?o)"
    by code_simp
  have i: "topicIds ?o = [1]" "len (topics ?o) = 1" by code_simp+
  have r: "run env0 ?o [CallCreateNewPost ''Second'' ''more'' ''bob'' ''127.0.0.1'' good]
             = Returns ([None], ?a)"
    by code_simp
  have l: "len (topics ?a) = 2" by code_simp
  have u: "[1..1::int] = [1]" "[1..2::int] = [1, 2]" by code_simp+
  have 1: "topicIds ?a = [1, 2]"
    using ids_by_position [where E = env0 and dir = "''data''" and name = "''forum''"
        and files = "[]" and ops = allOk and init = ?o
        and logFile = "Some (dataFile (after emptyStore oneTopic))"
        and calls = "[CallCreateNewPost ''Second'' ''more'' ''bob'' ''127.0.0.1'' good]"
        and errs = "[None]" and s = ?a] o i r l u
    by simp
  have n2: "NewStore env0 ''data'' ''forum'' (Some corruptLog) [] allOk
              = Returns (Inr (opened corruptLog))"
    by code_simp
  have r2: "run env0 (opened corruptLog)
              [CallAddPostToTopic 5 ''more'' ''bob'' ''127.0.0.1'' good] = Returns ([None], ?w)"
    by code_simp
  have c: "fst (snd (CreateNewPost env0 ?w ''Next'' ''m'' ''bob'' ''127.0.0.1'' good)) = None"
    by code_simp
  have t: "topicIds ?w = [5]" by code_simp
  have 2: "list_all (\<lambda>t. postIds ?w t = [1..int (len (Posts t))]) (topicsList ?w)"
    and 3: "topicIds (snd (snd (CreateNewPost env0 ?w ''Next'' ''m'' ''bob'' ''127.0.0.1'' good)))
              = [5, 6]"
    using ids_by_position [where E = env0 and dir = "''data''" and name = "''forum''"
        and files = "[]" and ops = allOk and init = "opened corruptLog"
        and logFile = "Some corruptLog"
        and calls = "[CallAddPostToTopic 5 ''more'' ''bob'' ''127.0.0.1'' good]"
        and errs = "[None]" and s = ?w and subject = "''Next''" and msg = "''m''"
        and user = "''bob''" and ipAddr = "''127.0.0.1''" and fx = good] n2 r2 c t
    by (simp_all add: int64_def)
  have v: "postIdsByTopic ?w = [(5, [1, 2])]" by code_simp
  have f: "Split (tl ?line) (CHR ''|'')
             = [''5'', ''7'', ''1148874103'', ''AAAAAAAAAAAAAAAAAAAAAAAAAAA'', ''7f000001'',
                ''alice'']"
    "Atoi ''5'' = (5, True)" "Atoi ''7'' = (7, True)" "Atoi ''1148874103'' = (1148874103, True)"
    "base64_DecodeString (''AAAAAAAAAAAAAAAAAAAAAAAAAAA'' @ ''='') = Some (replicate 20 0)"
    "length (replicate 20 (0::nat)) = 20"
    "(Map.empty(5 \<mapsto> (0, 0))) (5::int) = Some (0::nat, 0::nat)"
    by code_simp+
  have g: "int (len (Posts (derefTopic ?st (0, 0)))) + 1 = 1" "Subject (derefTopic ?st (0, 0)) = ''Hello''"
    "copy20 (replicate 20 0) = replicate 20 0"
    by code_simp+
  have 4: "parsePost ?st ?line (Map.empty(5 \<mapsto> (0, 0)))
       = Returns
           (\<lparr>PostId = 1, CreatedOn = Time 1148874103 0, MessageSha1 = replicate 20 0,
             UserNameInternal = ''alice'', IpAddrInternal = ''7f000001'', IsDeleted = False,
             Topic = Some (0, 0)\<rparr>,
            [UnexpectedPostId ?line 5 7 1 ''Hello''])"
    using ids_by_position [where line = ?line and ?f0.0 = "''5''" and ?f1.0 = "''7''"
        and ?f2.0 = "''1148874103''" and ?f3.0 = "''AAAAAAAAAAAAAAAAAAAAAAAAAAA''"
        and ?f4.0 = "''7f000001''" and ?f5.0 = "''alice''" and topicId = 5 and pid = 7
        and secs = 1148874103 and sha = "replicate 20 0" and m = "Map.empty(5 \<mapsto> (0, 0))"
        and t = "(0, 0)" and st = ?st] f g
    by simp
  from 0 1 2 v 3 4 show ?thesis by blast
qed

end
